theory Spec2Isabelle
  imports Main "HOL-Library.Word"
begin

section \<open>JavaScript strings\<close>

text \<open>
  A JavaScript string is a sequence of UTF-16 code units; \<open>length\<close>, indexing,
  \<open>substring\<close>, \<open>indexOf\<close> and \<open>replace\<close> all count code units.
\<close>

type_synonym jschar = "16 word"
type_synonym jsstring = "jschar list"

definition ascii :: "string \<Rightarrow> jsstring" where
  "ascii s = map (\<lambda>c. of_nat (of_char c)) s"

text \<open>The zero-width non-joiner U+200C, written as the escape u200c in content.js.\<close>

definition zwnj :: jschar where
  "zwnj = 0x200C"

text \<open>
  \<open>s.substring(a, b)\<close>: both indices are clamped to the length and swapped when
  \<open>a > b\<close>.
\<close>

definition substring :: "jsstring \<Rightarrow> nat \<Rightarrow> nat \<Rightarrow> jsstring" where
  "substring s a b =
     (let a' = min a (length s); b' = min b (length s);
          lo = min a' b'; hi = max a' b'
      in take (hi - lo) (drop lo s))"

text \<open>
  \<open>s.indexOf(pat, pos)\<close>: the least index \<open>k \<ge> pos\<close> at which \<open>pat\<close> occurs in
  \<open>s\<close>; \<open>None\<close> stands for the result \<open>-1\<close>. The position is clamped to the length.
\<close>

function indexOf_scan :: "jsstring \<Rightarrow> jsstring \<Rightarrow> nat \<Rightarrow> nat option" where
  "indexOf_scan s pat k =
     (if length s < k + length pat then None
      else if take (length pat) (drop k s) = pat then Some k
      else indexOf_scan s pat (Suc k))"
  by pat_completeness auto
termination
  by (relation "measure (\<lambda>(s, pat, k). Suc (length s) - k)") auto

declare indexOf_scan.simps [simp del]

definition indexOf :: "jsstring \<Rightarrow> jsstring \<Rightarrow> nat \<Rightarrow> nat option" where
  "indexOf s pat pos = indexOf_scan s pat (min pos (length s))"

text \<open>
  \<open>s.replace(pat, repl)\<close> with a string pattern: only the first occurrence of \<open>pat\<close>
  is replaced (no occurrence: the string is returned as it is).
\<close>

definition replace :: "jsstring \<Rightarrow> jsstring \<Rightarrow> jsstring \<Rightarrow> jsstring" where
  "replace s pat repl =
     (case indexOf s pat 0 of
        None \<Rightarrow> s
      | Some k \<Rightarrow> take k s @ repl @ drop (k + length pat) s)"

section \<open>Dictionary index and longest-match resolver\<close>

record DictionaryEntry =
  simplified :: jsstring
  traditional :: jsstring
  pinyin :: jsstring
  definitions :: "jsstring list"

text \<open>
  Modelled from the spec: the \<open>Dictionary\<close> class of dictionary.js, which mypy.js
  imports and background.js calls through \<open>mypy.dict.lookUpWord\<close>. The index maps
  a headword to its group of entries; it is kept as an association list so that
  \<open>maxHeadwordLength\<close> is computable.
\<close>

type_synonym DictionaryIndex = "(jsstring \<times> DictionaryEntry list) list"

definition keys :: "DictionaryIndex \<Rightarrow> jsstring set" where
  "keys D = set (map fst D)"

definition lookup :: "DictionaryIndex \<Rightarrow> jsstring \<Rightarrow> DictionaryEntry list" where
  "lookup D headword = (case map_of D headword of None \<Rightarrow> [] | Some es \<Rightarrow> es)"

fun maxHeadwordLength :: "DictionaryIndex \<Rightarrow> nat" where
  "maxHeadwordLength [] = 0"
| "maxHeadwordLength ((k, es) # D) = max (length k) (maxHeadwordLength D)"

text \<open>
  Modelled from the spec: the invariant of the index in the data model (section 3). Keys
  are unique, every headword is a non-empty string and stores at least one entry.
\<close>

definition wf_index :: "DictionaryIndex \<Rightarrow> bool" where
  "wf_index D = (distinct (map fst D) \<and> list_all (\<lambda>(k, es). k \<noteq> [] \<and> es \<noteq> []) D)"

record lookup_result =
  data :: "DictionaryEntry list"
  matchLen :: nat

text \<open>
  Modelled from the spec: the resolver (section 4.3). Candidate lengths run from
  \<open>min(len(buffer), maxHeadwordLength)\<close> down to 1; the first length whose prefix has a
  non-empty lookup result wins; \<open>None\<close> is \<open>noMatch\<close>.
\<close>

fun resolve_from :: "nat \<Rightarrow> jsstring \<Rightarrow> DictionaryIndex \<Rightarrow> lookup_result option" where
  "resolve_from 0 buffer D = None"
| "resolve_from (Suc L) buffer D =
     (case lookup D (take (Suc L) buffer) of
        [] \<Rightarrow> resolve_from L buffer D
      | e # es \<Rightarrow> Some \<lparr>data = e # es, matchLen = Suc L\<rparr>)"

text \<open>
  Modelled from the spec: \<open>lookUpWord\<close>, the method of the dictionary that
  background.js calls, is the resolver on the text of the request.
\<close>

definition lookUpWord :: "DictionaryIndex \<Rightarrow> jsstring \<Rightarrow> lookup_result option" where
  "lookUpWord D buffer = resolve_from (min (length buffer) (maxHeadwordLength D)) buffer D"

section \<open>Messages between the contexts\<close>

text \<open>
  A message is a plain object; the listeners switch on its \<open>type\<close> string. The other
  fields are read only by the case that needs them.
\<close>

record message =
  msg_type :: string
  msg_text :: jsstring
  msg_originalText :: jsstring
  msg_selStartOffset :: int

record search_result = lookup_result +
  originalText :: jsstring
  selStartOffset :: int

datatype js_error =
    ReferenceError string
  | TypeError
  | IndexSizeError
  | NoReturn

section \<open>background.js\<close>

text \<open>
  \<open>mypy.dict\<close> is \<open>undefined\<close> until the extension is switched on and after it is
  switched off (\<open>delete this.dict\<close>); calling \<open>lookUpWord\<close> on it is a TypeError.
\<close>

record MyPy =
  enabled :: bool
  dict :: "DictionaryIndex option"

datatype bg_effect =
    Callback "search_result option"
  | ConsoleLog string message

definition background_onMessage :: "MyPy \<Rightarrow> message \<Rightarrow> js_error + bg_effect list" where
  "background_onMessage mypy request =
     (if msg_type request = ''search'' then
        (case dict mypy of
           None \<Rightarrow> Inl TypeError
         | Some D \<Rightarrow>
             (case lookUpWord D (msg_text request) of
                None \<Rightarrow> Inr [Callback None]
              | Some response \<Rightarrow>
                  Inr [Callback (Some (lookup_result.extend response
                         \<lparr>originalText = msg_originalText request,
                          selStartOffset = msg_selStartOffset request\<rparr>))]))
      else Inr [ConsoleLog ''Background received unknown request: '' request])"

section \<open>content.js: highlight length\<close>

text \<open>
  The loop of \<open>processSearchResult\<close> that turns the match length into a highlight
  length. \<open>originalText[i]\<close> past the end is \<open>undefined\<close>, which is not the joiner.
\<close>

function skip_zwnj :: "jsstring \<Rightarrow> nat \<Rightarrow> nat" where
  "skip_zwnj T h =
     (if T \<noteq> [] \<and> h < length T \<and> T ! h = zwnj then skip_zwnj T (Suc h) else h)"
  by pat_completeness auto
termination
  by (relation "measure (\<lambda>(T, h). length T - h)") auto

declare skip_zwnj.simps [simp del]

text \<open>The for loop around it, by the number of rounds still to run.\<close>

fun highlight_for :: "jsstring \<Rightarrow> nat \<Rightarrow> nat \<Rightarrow> nat" where
  "highlight_for T 0 h = h"
| "highlight_for T (Suc k) h = highlight_for T k (Suc (skip_zwnj T h))"

definition highlightLength :: "jsstring \<Rightarrow> nat \<Rightarrow> nat" where
  "highlightLength T m = highlight_for T m 0"


section \<open>The document\<close>

text \<open>
  The page is a tree of nodes. A node reference is the path of child indices that
  leads from the document node to the node, so two references are the same node exactly
  when they are equal; the document node is the empty path and its \<open>parentNode\<close> is
  \<open>null\<close>. An element carries whether it has a \<open>form\<close> property (form controls do).
\<close>

type_synonym node = "nat list"

datatype dom =
    Text jsstring
  | Comment jsstring
  | Element bool "dom list"

fun node_at :: "dom \<Rightarrow> node \<Rightarrow> dom option" where
  "node_at t [] = Some t"
| "node_at (Element f cs) (i # p) = (if i < length cs then node_at (cs ! i) p else None)"
| "node_at (Text d) (i # p) = None"
| "node_at (Comment d) (i # p) = None"

definition parentNode :: "node \<Rightarrow> node option" where
  "parentNode n = (if n = [] then None else Some (butlast n))"

text \<open>\<open>node.data\<close>: defined for character data only.\<close>

definition data_of :: "dom \<Rightarrow> node \<Rightarrow> jsstring option" where
  "data_of doc n =
     (case node_at doc n of
        Some (Text d) \<Rightarrow> Some d
      | Some (Comment d) \<Rightarrow> Some d
      | _ \<Rightarrow> None)"

text \<open>The data of a node as a string, empty for a node that has none.\<close>

definition node_data :: "dom \<Rightarrow> node \<Rightarrow> jsstring" where
  "node_data doc n = (case data_of doc n of None \<Rightarrow> [] | Some d \<Rightarrow> d)"

text \<open>The length of a node: of its data, or the number of its children.\<close>

definition node_length :: "dom \<Rightarrow> node \<Rightarrow> nat" where
  "node_length doc n =
     (case node_at doc n of
        Some (Text d) \<Rightarrow> length d
      | Some (Comment d) \<Rightarrow> length d
      | Some (Element f cs) \<Rightarrow> length cs
      | None \<Rightarrow> 0)"

definition has_form :: "dom \<Rightarrow> node \<Rightarrow> bool" where
  "has_form doc n = (case node_at doc n of Some (Element f cs) \<Rightarrow> f | _ \<Rightarrow> False)"

text \<open>
  \<open>document.createNodeIterator(root, NodeFilter.SHOW_TEXT, null)\<close> enumerates the text
  nodes among \<open>root\<close> and its descendants in document order. \<open>text_paths\<close> gives them
  relative to the root of the subtree.
\<close>

fun text_paths :: "dom \<Rightarrow> node list"
  and text_paths_from :: "nat \<Rightarrow> dom list \<Rightarrow> node list" where
  "text_paths (Text d) = [[]]"
| "text_paths (Comment d) = []"
| "text_paths (Element f cs) = text_paths_from 0 cs"
| "text_paths_from i [] = []"
| "text_paths_from i (c # cs) = map ((#) i) (text_paths c) @ text_paths_from (Suc i) cs"

definition nodeIterator :: "dom \<Rightarrow> node \<Rightarrow> node list" where
  "nodeIterator doc root =
     (case node_at doc root of
        None \<Rightarrow> []
      | Some t \<Rightarrow> map ((@) root) (text_paths t))"

text \<open>
  The text nodes behind a node in document order: what the iteration over the whole
  document still holds once it has passed the node.
\<close>

definition following :: "dom \<Rightarrow> node \<Rightarrow> node list" where
  "following doc n = tl (dropWhile (\<lambda>q. q \<noteq> n) (nodeIterator doc []))"

section \<open>content.js: collecting the hovered text\<close>

text \<open>
  The two scans of \<open>findNextTextNode\<close> over the iterator: step to \<open>previous\<close>, then
  take the node behind it. \<open>None\<close> when the iterator ends first, in either scan.
\<close>

fun after_in :: "node \<Rightarrow> node list \<Rightarrow> node option" where
  "after_in previous [] = None"
| "after_in previous [x] = None"
| "after_in previous (x # y # ys) = (if x = previous then Some y else after_in previous (y # ys))"

function findNextTextNode :: "dom \<Rightarrow> node option \<Rightarrow> node \<Rightarrow> node option" where
  "findNextTextNode doc None previous = None"
| "findNextTextNode doc (Some root) previous =
     (case after_in previous (nodeIterator doc root) of
        Some result \<Rightarrow> Some result
      | None \<Rightarrow> findNextTextNode doc (parentNode root) previous)"
  by pat_completeness auto
termination
  by (relation "measure (\<lambda>(doc, root, previous). case root of None \<Rightarrow> 0 | Some r \<Rightarrow> Suc (length r))")
    (auto simp: parentNode_def)

record checkpoint =
  cp_node :: node
  cp_offset :: nat

definition getTextFromSingleNode ::
    "dom \<Rightarrow> node \<Rightarrow> checkpoint list \<Rightarrow> nat \<Rightarrow> jsstring \<times> checkpoint list" where
  "getTextFromSingleNode doc n selEndList maxLength =
     (case node_at doc n of
        Some (Text d) \<Rightarrow>
          (let endIndex = min maxLength (length d)
           in (substring d 0 endIndex, selEndList @ [\<lparr>cp_node = n, cp_offset = endIndex\<rparr>]))
      | _ \<Rightarrow> ([], selEndList))"

text \<open>
  The while loop of \<open>getText\<close>. Nothing in the loop itself bounds the number of rounds,
  so it is a partial function: \<open>None\<close> is the loop that does not return.
\<close>

partial_function (option) getText_loop ::
    "dom \<Rightarrow> nat \<Rightarrow> jsstring \<Rightarrow> checkpoint list \<Rightarrow> node \<Rightarrow> (jsstring \<times> checkpoint list) option" where
  [code]: "getText_loop doc maxLength text selEndList nextNode =
     (if length text < maxLength then
        (case findNextTextNode doc (parentNode nextNode) nextNode of
           None \<Rightarrow> Some (text, selEndList)
         | Some n \<Rightarrow>
             (case getTextFromSingleNode doc n selEndList (maxLength - length text) of
                (t, sel) \<Rightarrow> getText_loop doc maxLength (text @ t) sel n))
      else Some (text, selEndList))"

definition getText ::
    "dom \<Rightarrow> node \<Rightarrow> nat \<Rightarrow> checkpoint list \<Rightarrow> nat \<Rightarrow> (jsstring \<times> checkpoint list) option" where
  "getText doc startNode offset selEndList maxLength =
     (case node_at doc startNode of
        Some (Text d) \<Rightarrow>
          (let endIndex = min (length d) (offset + maxLength);
               text = substring d offset endIndex
           in getText_loop doc maxLength text
                (selEndList @ [\<lparr>cp_node = startNode, cp_offset = endIndex\<rparr>]) startNode)
      | _ \<Rightarrow> Some ([], selEndList))"

section \<open>content.js: state\<close>

text \<open>
  \<open>selText\<close> is declared without a value (\<open>undefined\<close>), set to the string of the
  selection the script makes, and to \<open>null\<close> when the highlight is cleared;
  \<open>clearHighlight\<close> tells \<open>null\<close> from \<open>undefined\<close>.
\<close>

datatype seltext = Undefined | Null | Str jsstring

record dom_range =
  startContainer :: node
  startOffset :: nat
  endContainer :: node
  endOffset :: nat

text \<open>
  The selection of the window: no range at all (\<open>None\<close>), or one range together with
  the string the browser gives for it. A selection made by the user can carry any
  string; for the one made by \<open>highlightMatch\<close> it is the text of the range.
\<close>

record selection =
  sel_range :: dom_range
  sel_string :: jsstring

definition isCollapsed :: "selection option \<Rightarrow> bool" where
  "isCollapsed sel =
     (case sel of
        None \<Rightarrow> True
      | Some s \<Rightarrow> startContainer (sel_range s) = endContainer (sel_range s) \<and>
                 startOffset (sel_range s) = endOffset (sel_range s))"

definition toString :: "selection option \<Rightarrow> jsstring" where
  "toString sel = (case sel of None \<Rightarrow> [] | Some s \<Rightarrow> sel_string s)"

text \<open>
  The element with id \<open>popup-window\<close>, when the page has one. It is kept beside the
  tree of the page: the nodes that \<open>innerHTML\<close> makes of the html are not part of
  \<open>document\<close> here.
\<close>

record popup_window =
  innerHTML :: jsstring
  display_none :: bool
  style_left :: "int option"
  style_top :: "int option"

text \<open>
  What the window reports when \<open>showPopup\<close> runs: the size of the viewport, the scroll
  position, and the measured size of the popup once its content is set.
\<close>

record layout =
  innerWidth :: int
  innerHeight :: int
  scrollX :: int
  scrollY :: int
  offsetWidth :: int
  offsetHeight :: int

text \<open>
  The globals of the content script, and the part of the page and of the runtime they
  act on. \<open>savedOffset\<close> is declared without a value; it is read only after
  \<open>onMouseMove\<close> has assigned it (its one earlier read is behind the comparison with
  \<open>savedTarget\<close>, which is \<open>undefined\<close>, here \<open>None\<close>, until the same assignment).
  \<open>timeouts\<close> are the handles of the armed timers, \<open>sent\<close> the search requests sent
  to the background, in order.
\<close>

record content =
  savedTarget :: "node option"
  savedTextNode :: "node option"
  savedOffset :: int
  selText :: seltext
  popupX :: int
  popupY :: int
  timer :: "nat option"
  savedSelEndList :: "checkpoint list"
  document :: dom
  is_top :: bool
  listening :: bool
  popup :: "popup_window option"
  selection :: "selection option"
  timeouts :: "nat list"
  next_timeout :: nat
  sent :: "message list"
  console :: "string list"

section \<open>content.js: highlight and popup\<close>

definition clearHighlight :: "content \<Rightarrow> content" where
  "clearHighlight st =
     (if selText st = Null then st
      else
        (let st1 = (if isCollapsed (selection st) \<or> selText st = Str (toString (selection st))
                    then st\<lparr>selection := None\<rparr> else st)
         in st1\<lparr>selText := Null\<rparr>))"

definition hidePopup :: "content \<Rightarrow> content" where
  "hidePopup st =
     (case popup st of
        None \<Rightarrow> st
      | Some p \<Rightarrow> st\<lparr>popup := Some (p\<lparr>display_none := True, innerHTML := []\<rparr>)\<rparr>)"

definition enableTabs :: "content \<Rightarrow> content" where
  "enableTabs st = st\<lparr>listening := True\<rparr>"

definition disableTabs :: "content \<Rightarrow> content" where
  "disableTabs st = clearHighlight (st\<lparr>listening := False, popup := None\<rparr>)"

text \<open>
  The loop of \<open>highlightMatch\<close> over the checkpoint list: \<open>selEnd\<close> is the entry last
  visited, \<open>offset\<close> what is left of the length.
\<close>

fun project :: "checkpoint list \<Rightarrow> checkpoint \<Rightarrow> int \<Rightarrow> checkpoint \<times> int" where
  "project [] selEnd offset = (selEnd, offset)"
| "project (c # cs) selEnd offset =
     (if offset \<le> int (cp_offset c) then (c, offset)
      else project cs c (offset - int (cp_offset c)))"

text \<open>
  Boundary points \<open>(node, offset)\<close> in tree order: the path of the node followed by
  the offset, compared position by position, a proper prefix coming first.
\<close>

fun path_less :: "nat list \<Rightarrow> nat list \<Rightarrow> bool" where
  "path_less [] [] = False"
| "path_less [] (y # ys) = True"
| "path_less (x # xs) [] = False"
| "path_less (x # xs) (y # ys) = (x < y \<or> (x = y \<and> path_less xs ys))"

definition bp_before :: "node \<times> nat \<Rightarrow> node \<times> nat \<Rightarrow> bool" where
  "bp_before a b = path_less (fst a @ [snd a]) (fst b @ [snd b])"

text \<open>
  \<open>document.createRange()\<close>, \<open>range.setStart\<close> and \<open>range.setEnd\<close>. The offset
  is an unsigned long: the number passed is first reduced modulo \<open>2^32\<close> (so \<open>-1\<close> is
  read as \<open>4294967295\<close>). An offset beyond the length of the node is an IndexSizeError;
  a start behind the end, or an end in front of the start, collapses the range to the
  new boundary point.
\<close>

definition createRange :: dom_range where
  "createRange = \<lparr>startContainer = [], startOffset = 0, endContainer = [], endOffset = 0\<rparr>"

definition unsigned_long :: "int \<Rightarrow> nat" where
  "unsigned_long i = nat (i mod 4294967296)"

definition setStart :: "dom \<Rightarrow> dom_range \<Rightarrow> node \<Rightarrow> int \<Rightarrow> js_error + dom_range" where
  "setStart doc r n offset =
     (let off = unsigned_long offset
      in if node_length doc n < off then Inl IndexSizeError
         else
           (let r1 = r\<lparr>startContainer := n, startOffset := off\<rparr>
            in if bp_before (endContainer r, endOffset r) (n, off)
               then Inr (r1\<lparr>endContainer := n, endOffset := off\<rparr>)
               else Inr r1))"

definition setEnd :: "dom \<Rightarrow> dom_range \<Rightarrow> node \<Rightarrow> int \<Rightarrow> js_error + dom_range" where
  "setEnd doc r n offset =
     (let off = unsigned_long offset
      in if node_length doc n < off then Inl IndexSizeError
         else
           (let r1 = r\<lparr>endContainer := n, endOffset := off\<rparr>
            in if bp_before (n, off) (startContainer r, startOffset r)
               then Inr (r1\<lparr>startContainer := n, startOffset := off\<rparr>)
               else Inr r1))"

text \<open>
  The string of a range: the part of the start and end text nodes inside the range and
  the data of every text node contained in it, in document order.
\<close>

definition range_part :: "dom \<Rightarrow> dom_range \<Rightarrow> node \<Rightarrow> jsstring" where
  "range_part doc r n =
     (case node_at doc n of
        Some (Text d) \<Rightarrow>
          (if n = startContainer r \<and> n = endContainer r
             then substring d (startOffset r) (endOffset r)
           else if n = startContainer r then drop (startOffset r) d
           else if n = endContainer r then take (endOffset r) d
           else if bp_before (startContainer r, startOffset r) (n, 0) \<and>
                   bp_before (n, length d) (endContainer r, endOffset r) then d
           else [])
      | _ \<Rightarrow> [])"

definition rangeText :: "dom \<Rightarrow> dom_range \<Rightarrow> jsstring" where
  "rangeText doc r = concat (map (range_part doc r) (nodeIterator doc []))"

definition highlightMatch ::
    "node \<Rightarrow> int \<Rightarrow> nat \<Rightarrow> checkpoint list \<Rightarrow> content \<Rightarrow> js_error option \<times> content" where
  "highlightMatch rangeStartNode rangeStartOffset matchLen' selEndList st =
     (case selEndList of
        [] \<Rightarrow> (None, st)
      | c # cs \<Rightarrow>
          (case project (c # cs) c (rangeStartOffset + int matchLen') of
             (selEnd, offset) \<Rightarrow>
               (case setStart (document st) createRange rangeStartNode rangeStartOffset of
                  Inl e \<Rightarrow> (Some e, st)
                | Inr r1 \<Rightarrow>
                    (case setEnd (document st) r1 (cp_node selEnd) offset of
                       Inl e \<Rightarrow> (Some e, st)
                     | Inr rng \<Rightarrow>
                         (if \<not> isCollapsed (selection st) \<and>
                             selText st \<noteq> Str (toString (selection st))
                          then (None, st)
                          else
                            (let sel = Some \<lparr>sel_range = rng,
                                            sel_string = rangeText (document st) rng\<rparr>
                             in (None, st\<lparr>selection := sel, selText := Str (toString sel)\<rparr>)))))))"

text \<open>
  The loop of \<open>showPopup\<close> that estimates the height from the line breaks of the html.
\<close>

function count_br :: "jsstring \<Rightarrow> nat \<Rightarrow> int \<Rightarrow> int" where
  "count_br html j pH =
     (case indexOf html (ascii ''<br/>'') j of
        None \<Rightarrow> pH
      | Some k \<Rightarrow> count_br html (k + 5) (pH + 22))"
  by pat_completeness auto
termination
proof (relation "measure (\<lambda>(html, j, pH). length html - j)")
  show "wf (measure (\<lambda>(html, j, pH). length html - j))"
    by simp
next
  fix html :: jsstring and j :: nat and pH :: int and k :: nat
  assume found: "indexOf html (ascii ''<br/>'') j = Some k"
  have scan: "indexOf_scan s pat i = Some r \<Longrightarrow> i \<le> r \<and> r + length pat \<le> length s"
    for s pat :: jsstring and i r :: nat
  proof (induction s pat i rule: indexOf_scan.induct)
    case (1 s pat i)
    from "1.prems" show ?case
      by (subst (asm) indexOf_scan.simps) (auto split: if_splits dest!: "1.IH")
  qed
  from found have "min j (length html) \<le> k \<and> k + 5 \<le> length html"
    using scan[of html "ascii ''<br/>''" "min j (length html)" k]
    by (simp add: indexOf_def ascii_def)
  then show "((html, k + 5, pH + 22), (html, j, pH)) \<in> measure (\<lambda>(html, j, pH). length html - j)"
    by auto
qed

declare count_br.simps [simp del]

text \<open>
  \<open>showPopup\<close>. An argument that is not passed is \<open>undefined\<close> (\<open>None\<close>) and, like 0,
  falsy. The file is in strict mode, so the assignment to the undeclared \<open>pw\<close> is a
  ReferenceError; what was done to the popup before stays done.
\<close>

definition place :: "layout \<Rightarrow> int \<Rightarrow> int \<Rightarrow> popup_window \<Rightarrow> content \<Rightarrow> content" where
  "place w x y p st =
     (let x1 = x + scrollX w; y1 = y + scrollY w
      in if x1 \<noteq> - 1 \<and> y1 \<noteq> - 1
         then st\<lparr>popup := Some (p\<lparr>style_left := Some x1, style_top := Some y1,
                                   display_none := False\<rparr>)\<rparr>
         else st\<lparr>popup := Some p\<rparr>)"

definition showPopup ::
    "layout \<Rightarrow> jsstring \<Rightarrow> node option \<Rightarrow> int option \<Rightarrow> int option \<Rightarrow> content
      \<Rightarrow> js_error option \<times> content" where
  "showPopup w html elem x y st =
     (let (x0, y0) = (case (x, y) of
                        (Some a, Some b) \<Rightarrow> if a = 0 \<or> b = 0 then (0, 0) else (a, b)
                      | _ \<Rightarrow> (0, 0));
          p0 = (case popup st of
                  None \<Rightarrow> \<lparr>innerHTML = [], display_none = False,
                            style_left = None, style_top = None\<rparr>
                | Some p \<Rightarrow> p);
          p1 = p0\<lparr>innerHTML := html\<rparr>
      in case elem of
           None \<Rightarrow> (None, place w x0 y0 p1 st)
         | Some e \<Rightarrow>
             (let p2 = p1\<lparr>style_top := Some (- 1000), style_left := Some 0,
                          display_none := False\<rparr>;
                  v = 25;
                  pW = offsetWidth w;
                  pH = offsetHeight w
              in if pW \<le> 0 then (Some (ReferenceError ''pw''), st\<lparr>popup := Some p2\<rparr>)
                 else
                   (let pH1 = (if pH \<le> 0 then count_br html 0 25 else pH);
                        x1 = (if x0 + pW > innerWidth w - 20
                              then (let x2 = (innerWidth w - pW) - 20
                                    in if x2 < 0 then 0 else x2)
                              else x0);
                        y1 = (if y0 + v + pH1 > innerHeight w
                              then (let t = y0 - pH1 - 30 in if t \<ge> 0 then t else y0 + v)
                              else y0 + v)
                    in (None, place w x1 y1 p2 st))))"

section \<open>content.js: the html of the popup\<close>

text \<open>The decimal digits of a number, as string concatenation writes it.\<close>

function decimal :: "nat \<Rightarrow> jsstring" where
  "decimal n =
     (if n < 10 then [of_nat (48 + n)]
      else decimal (n div 10) @ [of_nat (48 + n mod 10)])"
  by pat_completeness auto
termination
  by (relation "measure (\<lambda>n. n)") auto

declare decimal.simps [simp del]

text \<open>\<open>s.trim()\<close> strips white space and line terminators from both ends.\<close>

definition isWhiteSpace :: "jschar \<Rightarrow> bool" where
  "isWhiteSpace c =
     (c \<in> set [0x9, 0xA, 0xB, 0xC, 0xD, 0x20, 0xA0, 0x1680, 0x2000, 0x2001, 0x2002, 0x2003,
                0x2004, 0x2005, 0x2006, 0x2007, 0x2008, 0x2009, 0x200A, 0x2028, 0x2029,
                0x202F, 0x205F, 0x3000, 0xFEFF])"

definition trim :: "jsstring \<Rightarrow> jsstring" where
  "trim s = rev (dropWhile isWhiteSpace (rev (dropWhile isWhiteSpace s)))"

text \<open>
  \<open>defHtml\<close>: a list of one definition is returned as it is, and the concatenation in
  \<open>makeHtml\<close> turns it into its one string; otherwise the definitions are numbered.
\<close>

definition defHtml :: "jsstring list \<Rightarrow> jsstring" where
  "defHtml defs =
     (if length defs = 1 then hd defs
      else trim (concat (map (\<lambda>i. ascii ''<b>'' @ decimal (i + 1) @ ascii ''</b> '' @ defs ! i @ ascii '' '')
                           [0..<length defs])))"

text \<open>
  The inner loop of \<open>makeHtml\<close>: a middle dot where the traditional character is the
  simplified one. \<open>traditional[k]\<close> past the end is \<open>undefined\<close>, which the
  concatenation writes out.
\<close>

definition diff_trad :: "jsstring \<Rightarrow> jsstring \<Rightarrow> jsstring" where
  "diff_trad simp trad =
     concat (map (\<lambda>k. if k < length trad
                       then (if simp ! k = trad ! k then [0x30FB] else [trad ! k])
                       else ascii ''undefined'')
                 [0..<length simp])"

definition entryHtml :: "DictionaryEntry \<Rightarrow> jsstring" where
  \<open>entryHtml e =
     ascii ''<div class="entry">'' @
     ascii ''<div class="chinese">'' @
     ascii ''<span>'' @ simplified e @ ascii ''</span>'' @
     ascii ''<span class="spacer"></span>'' @
     ascii ''<span> <span class="brace">[</span>'' @ diff_trad (simplified e) (traditional e) @
     ascii ''<span class="brace">]</span> </span>'' @
     ascii ''</div>'' @
     ascii ''<div class="pinyin">'' @
     ascii ''<span>'' @ pinyin e @ ascii ''</span>'' @
     ascii ''</div>'' @
     ascii ''<div class="def">'' @ defHtml (definitions e) @ ascii ''</div>'' @
     ascii ''</div>''\<close>

text \<open>\<open>makeHtml\<close> for a result that is not \<open>null\<close> (its one caller has checked that).\<close>

definition makeHtml :: "search_result \<Rightarrow> jsstring" where
  \<open>makeHtml matches =
     ascii ''<div class="popup-container">'' @ concat (map entryHtml (data matches))\<close>

section \<open>content.js: search and its result\<close>

text \<open>
  \<open>makeSearch\<close> returns 1, 2 or 0. A negative offset is caught before the data of the
  node is read; reading the length of the data of a node that has none is a TypeError.
  \<open>getText\<close> is called without \<open>maxLength\<close>, which is then 7, and with a fresh empty
  list.
\<close>

definition makeSearch :: "content \<Rightarrow> (js_error + int) \<times> content" where
  "makeSearch st =
     (case savedTextNode st of
        None \<Rightarrow> (Inr 1, hidePopup (clearHighlight st))
      | Some textNode \<Rightarrow>
          (let selStartOffset' = savedOffset st
           in if selStartOffset' < 0 then (Inr 2, hidePopup (clearHighlight st))
              else
                case data_of (document st) textNode of
                  None \<Rightarrow> (Inl TypeError, st)
                | Some d \<Rightarrow>
                  if int (length d) \<le> selStartOffset'
                  then (Inr 2, hidePopup (clearHighlight st))
                  else
                    (case getText (document st) textNode (nat selStartOffset') [] 7 of
                       None \<Rightarrow> (Inl NoReturn, st)
                     | Some (originalText', selEndList) \<Rightarrow>
                         (let text = replace originalText' (ascii ''&zwnj'') []
                          in (Inr 0,
                              st\<lparr>savedSelEndList := selEndList,
                                 sent := sent st @
                                   [\<lparr>msg_type = ''search'', msg_text = text,
                                     msg_originalText = originalText',
                                     msg_selStartOffset = selStartOffset'\<rparr>]\<rparr>)))))"

text \<open>
  \<open>processSearchResult\<close>, the callback of the search request. \<open>'form' in savedTarget\<close>
  on \<open>undefined\<close> and \<open>textNode.ownerDocument\<close> on \<open>null\<close> are TypeErrors; the owner
  document is \<open>null\<close> for the document node only.
\<close>

definition processSearchResult ::
    "layout \<Rightarrow> search_result option \<Rightarrow> content \<Rightarrow> js_error option \<times> content" where
  "processSearchResult w result st =
     (case result of
        None \<Rightarrow> (None, clearHighlight (hidePopup st))
      | Some r \<Rightarrow>
          if length (data r) = 0 then (None, clearHighlight (hidePopup st))
          else
            (let selStartOffset' = selStartOffset r;
                 selEndList = savedSelEndList st;
                 highlightLength' = highlightLength (originalText r) (matchLen r);
                 textNode = savedTextNode st
             in case savedTarget st of
                  None \<Rightarrow> (Some TypeError, st)
                | Some tg \<Rightarrow>
                    if \<not> has_form (document st) tg then
                      (case textNode of
                         None \<Rightarrow> (Some TypeError, st)
                       | Some tn \<Rightarrow>
                           if tn = [] then (None, hidePopup (clearHighlight st))
                           else
                             (case highlightMatch tn selStartOffset' highlightLength' selEndList st of
                                (Some e, st1) \<Rightarrow> (Some e, st1)
                              | (None, st1) \<Rightarrow>
                                  showPopup w (makeHtml r) (savedTarget st1)
                                    (Some (popupX st1)) (Some (popupY st1)) st1))
                    else showPopup w (makeHtml r) (savedTarget st)
                           (Some (popupX st)) (Some (popupY st)) st))"

section \<open>content.js: mouse movement and messages\<close>

text \<open>
  A mouse event with what the caret lookup of the page answers for its point: no such
  function in the page, \<open>null\<close>, or a node and an offset.
\<close>

datatype caret_result = Unsupported | NullRange | CaretAt node int

record mouse_event =
  target :: node
  clientX :: int
  clientY :: int
  caret :: caret_result

text \<open>\<open>node && node.data\<close>: the node has data and the data is not the empty string.\<close>

definition has_data :: "dom \<Rightarrow> node option \<Rightarrow> bool" where
  "has_data doc n =
     (case n of
        None \<Rightarrow> False
      | Some m \<Rightarrow> (case data_of doc m of None \<Rightarrow> False | Some d \<Rightarrow> d \<noteq> []))"

definition data_length :: "dom \<Rightarrow> node option \<Rightarrow> int" where
  "data_length doc n =
     (case n of
        None \<Rightarrow> 0
      | Some m \<Rightarrow> (case data_of doc m of None \<Rightarrow> 0 | Some d \<Rightarrow> int (length d)))"

text \<open>
  \<open>setTimeout\<close> hands out a fresh handle, a number above zero. The distance test
  \<open>Math.sqrt(dx * dx + dy * dy) > 4\<close> is, for whole coordinates, \<open>dx * dx + dy * dy > 16\<close>.
\<close>

definition onMouseMove :: "mouse_event \<Rightarrow> content \<Rightarrow> content" where
  "onMouseMove mouseMove st =
     (case caret mouseMove of
        Unsupported \<Rightarrow>
          st\<lparr>console := console st @
                [''Neither caretPositionFromPoint nor caretRangeFromPoint supported'']\<rparr>
      | NullRange \<Rightarrow> st
      | CaretAt textNode0 offset0 \<Rightarrow>
          if Some (target mouseMove) = savedTarget st \<and> Some textNode0 = savedTextNode st \<and>
             offset0 = savedOffset st
          then st
          else
            (let st1 = (case timer st of
                          None \<Rightarrow> st
                        | Some h \<Rightarrow>
                            if h = 0 then st
                            else st\<lparr>timeouts := removeAll h (timeouts st), timer := None\<rparr>);
                 doc = document st;
                 (textNode1, offset1) =
                   (if has_data doc (Some textNode0) \<and> offset0 = data_length doc (Some textNode0)
                    then (findNextTextNode doc (parentNode textNode0) textNode0, 0)
                    else (Some textNode0, offset0));
                 (textNode2, offset2) =
                   (if textNode1 = None \<or>
                       Option.bind textNode1 parentNode \<noteq> Some (target mouseMove)
                    then (None, - 1)
                    else (textNode1, offset1));
                 st2 = st1\<lparr>savedTarget := Some (target mouseMove), savedTextNode := textNode2,
                           savedOffset := offset2\<rparr>
             in if has_data doc textNode2 \<and> offset2 < data_length doc textNode2
                then st2\<lparr>popupX := clientX mouseMove, popupY := clientY mouseMove,
                         timer := Some (next_timeout st2),
                         timeouts := timeouts st2 @ [next_timeout st2],
                         next_timeout := Suc (next_timeout st2)\<rparr>
                else
                  (let dx = popupX st2 - clientX mouseMove;
                       dy = popupY st2 - clientY mouseMove
                   in if dx * dx + dy * dy > 16 then hidePopup (clearHighlight st2) else st2)))"

text \<open>
  The message listener of the content script. Its default case names \<open>reqest\<close>, a
  variable that is declared nowhere: evaluating it is a ReferenceError.
\<close>

definition content_onMessage :: "layout \<Rightarrow> message \<Rightarrow> content \<Rightarrow> js_error option \<times> content" where
  "content_onMessage w request st =
     (if msg_type request = ''enable'' then (None, enableTabs st)
      else if msg_type request = ''disable'' then (None, disableTabs st)
      else if msg_type request = ''showPopup'' then
        (if is_top st then showPopup w (msg_text request) None None None st else (None, st))
      else (Some (ReferenceError ''reqest''), st))"

section \<open>content.js: the events of a page\<close>

text \<open>
  What can happen to the content script: a message from the background, a mouse move
  (heard only while the listener is registered), an armed timer that fires and runs
  \<open>makeSearch\<close>, and the answer to a search request, handed to \<open>processSearchResult\<close>.
  An exception ends the handler that raised it, not the script.
\<close>

datatype event =
    Message message
  | MouseMove mouse_event
  | Timeout nat
  | Response "search_result option"

definition step :: "layout \<Rightarrow> event \<Rightarrow> content \<Rightarrow> js_error option \<times> content" where
  "step w ev st =
     (case ev of
        Message request \<Rightarrow> content_onMessage w request st
      | MouseMove mouseMove \<Rightarrow> if listening st then (None, onMouseMove mouseMove st) else (None, st)
      | Timeout h \<Rightarrow>
          if h \<in> set (timeouts st) then
            (case makeSearch (st\<lparr>timeouts := removeAll h (timeouts st)\<rparr>) of
               (Inl e, st1) \<Rightarrow> (Some e, st1)
             | (Inr v, st1) \<Rightarrow> (None, st1))
          else (None, st)
      | Response result \<Rightarrow> processSearchResult w result st)"

fun run :: "layout \<Rightarrow> event list \<Rightarrow> content \<Rightarrow> content" where
  "run w [] st = st"
| "run w (ev # evs) st = run w evs (snd (step w ev st))"

definition init :: "dom \<Rightarrow> content" where
  "init doc =
     \<lparr>savedTarget = None, savedTextNode = None, savedOffset = 0, selText = Undefined,
      popupX = 0, popupY = 0, timer = None, savedSelEndList = [],
      document = doc, is_top = True, listening = False, popup = None, selection = None,
      timeouts = [], next_timeout = 1, sent = [], console = []\<rparr>"

section \<open>An example page\<close>

text \<open>
  A paragraph that holds a text node of six characters and, inside an inline element, a
  text node of three: the paragraph is node \<open>[0]\<close>, its text \<open>[0, 0]\<close>, the inline
  element \<open>[0, 1]\<close> and its text \<open>[0, 1, 0]\<close>. The dictionary knows the first two
  characters of the paragraph as a word.
\<close>

definition example_page :: dom where
  "example_page =
     Element False
       [Element False
          [Text [0x4E2D, 0x56FD, 0x4EBA, 0x6C11, 0x94F6, 0x884C],
           Element False [Text [0x4F60, 0x597D, 0x5417]]]]"

definition example_entry :: DictionaryEntry where
  "example_entry =
     \<lparr>simplified = [0x4E2D, 0x56FD], traditional = [0x4E2D, 0x570B],
      pinyin = ascii ''Zhong1 guo2'', definitions = [ascii ''China'']\<rparr>"

definition example_index :: DictionaryIndex where
  "example_index = [([0x4E2D], [example_entry\<lparr>simplified := [0x4E2D], traditional := [0x4E2D],
                        pinyin := ascii ''zhong1'', definitions := [ascii ''middle'']\<rparr>]),
                    ([0x4E2D, 0x56FD], [example_entry])]"

definition example_layout :: layout where
  "example_layout =
     \<lparr>innerWidth = 1000, innerHeight = 800, scrollX = 0, scrollY = 0,
      offsetWidth = 300, offsetHeight = 60\<rparr>"

definition plain_message :: "string \<Rightarrow> message" where
  "plain_message t =
     \<lparr>msg_type = t, msg_text = [], msg_originalText = [], msg_selStartOffset = 0\<rparr>"

text \<open>The pointer over the first character of the paragraph, then over the second
  character of the inline element.\<close>

definition move_first :: mouse_event where
  "move_first = \<lparr>target = [0], clientX = 100, clientY = 100, caret = CaretAt [0, 0] 0\<rparr>"

definition move_second :: mouse_event where
  "move_second = \<lparr>target = [0, 1], clientX = 160, clientY = 100, caret = CaretAt [0, 1, 0] 1\<rparr>"

text \<open>The answer of the background to the search sent for the first position.\<close>

definition first_response :: search_result where
  "first_response =
     \<lparr>data = [example_entry], matchLen = 2,
      originalText = [0x4E2D, 0x56FD, 0x4EBA, 0x6C11, 0x94F6, 0x884C, 0x4F60],
      selStartOffset = 0\<rparr>"

text \<open>
  A page whose text has a zero-width non-joiner between two characters, and the state of
  the script once the pointer rests on its first character.
\<close>

definition joiner_page :: dom where
  "joiner_page = Element False [Element False [Text [0x4E2D, zwnj, 0x56FD]]]"

definition joiner_state :: content where
  "joiner_state =
     run example_layout [Message (plain_message ''enable''), MouseMove move_first] (init joiner_page)"

text \<open>
  The example page with a selection the user has made (the third and fourth character of
  the paragraph) while the script remembers its own highlight of the first two.
\<close>

definition user_selection_state :: content where
  "user_selection_state =
     (init example_page)
       \<lparr>selText := Str [0x4E2D, 0x56FD],
        selection := Some \<lparr>sel_range = \<lparr>startContainer = [0, 0], startOffset = 2,
                                         endContainer = [0, 0], endOffset = 4\<rparr>,
                           sel_string = [0x4EBA, 0x6C11]\<rparr>\<rparr>"

text \<open>
  A page whose paragraph holds the same word twice, and the answer of the background to
  the search for its first position.
\<close>

definition repeat_page :: dom where
  "repeat_page = Element False [Element False [Text [0x4E2D, 0x56FD, 0x548C, 0x4E2D, 0x56FD]]]"

definition repeat_response :: search_result where
  "repeat_response =
     \<lparr>data = [example_entry], matchLen = 2,
      originalText = [0x4E2D, 0x56FD, 0x548C, 0x4E2D, 0x56FD], selStartOffset = 0\<rparr>"

text \<open>
  The script has highlighted the first occurrence of the word: the pointer rested on it,
  the search was sent and answered.
\<close>

definition highlighted_state :: content where
  "highlighted_state =
     run example_layout
       [Message (plain_message ''enable''), MouseMove move_first, Timeout 1,
        Response (Some repeat_response)]
       (init repeat_page)"

text \<open>
  Then the user selects the second occurrence of the word, whose string is the one the
  script recorded for its own highlight; or the user places the caret in the text, which
  is a collapsed selection.
\<close>

definition same_text_state :: content where
  "same_text_state =
     highlighted_state
       \<lparr>selection := Some \<lparr>sel_range = \<lparr>startContainer = [0, 0], startOffset = 3,
                                         endContainer = [0, 0], endOffset = 5\<rparr>,
                           sel_string = [0x4E2D, 0x56FD]\<rparr>\<rparr>"

definition caret_state :: content where
  "caret_state =
     highlighted_state
       \<lparr>selection := Some \<lparr>sel_range = \<lparr>startContainer = [0, 0], startOffset = 4,
                                         endContainer = [0, 0], endOffset = 4\<rparr>,
                           sel_string = []\<rparr>\<rparr>"

text \<open>
  The pointer rests on the first position until the search is sent, then moves on to the
  second position and rests there until that search is sent too.
\<close>

definition stale_state :: content where
  "stale_state =
     run example_layout
       [Message (plain_message ''enable''), MouseMove move_first, Timeout 1,
        MouseMove move_second, Timeout 2]
       (init example_page)"

section \<open>Properties of the highlight length\<close>

lemma skip_zwnj_takeWhile:
  "skip_zwnj T h = h + length (takeWhile (\<lambda>c. c = zwnj) (drop h T))"
proof (induction T h rule: skip_zwnj.induct)
  case (1 T h)
  show ?case
  proof (cases "h < length T")
    case True
    then have d: "drop h T = T ! h # drop (Suc h) T"
      by (simp add: Cons_nth_drop_Suc)
    show ?thesis
    proof (cases "T ! h = zwnj")
      case z: True
      with True have "T \<noteq> [] \<and> h < length T \<and> T ! h = zwnj" by auto
      with 1 have "skip_zwnj T (Suc h) = Suc h + length (takeWhile (\<lambda>c. c = zwnj) (drop (Suc h) T))"
        by blast
      with True z d show ?thesis
        by (subst skip_zwnj.simps) auto
    next
      case False
      with d show ?thesis
        by (subst skip_zwnj.simps) simp
    qed
  next
    case False
    then show ?thesis
      by (subst skip_zwnj.simps) simp
  qed
qed

text \<open>
  When the text from index \<open>h\<close> on still holds \<open>k + 1\<close> visible characters, \<open>k + 1\<close>
  rounds of the loop stop just behind the last of them.
\<close>

lemma highlight_for_reaches:
  "drop h T = xs @ c # ys \<Longrightarrow> c \<noteq> zwnj \<Longrightarrow>
   length (filter (\<lambda>c. c \<noteq> zwnj) xs) = k \<Longrightarrow>
   highlight_for T (Suc k) h = h + length xs + 1"
proof (induction k arbitrary: h xs)
  case 0
  then have "\<forall>x\<in>set xs. x = zwnj"
    by (simp add: filter_empty_conv)
  then have "takeWhile (\<lambda>c. c = zwnj) (xs @ c # ys) = xs"
    using 0 by (simp add: takeWhile_append2)
  with 0 show ?case
    by (simp add: skip_zwnj_takeWhile)
next
  case (Suc k)
  define zs where "zs = takeWhile (\<lambda>c. c = zwnj) xs"
  define rest where "rest = dropWhile (\<lambda>c. c = zwnj) xs"
  have xs: "xs = zs @ rest" by (simp add: zs_def rest_def)
  have "rest \<noteq> []"
  proof
    assume "rest = []"
    then have "\<forall>x\<in>set xs. x = zwnj" by (simp add: rest_def dropWhile_eq_Nil_conv)
    then have "filter (\<lambda>c. c \<noteq> zwnj) xs = []" by (simp add: filter_empty_conv)
    with Suc.prems show False by simp
  qed
  then obtain v xs' where rest: "rest = v # xs'" by (cases rest) auto
  have v: "v \<noteq> zwnj"
    using rest hd_dropWhile[of "\<lambda>c. c = zwnj" xs] by (auto simp: rest_def)
  have zs_all: "\<forall>x\<in>set zs. x = zwnj"
    by (auto simp: zs_def dest: set_takeWhileD)
  have tw: "takeWhile (\<lambda>c. c = zwnj) (drop h T) = zs"
    using Suc.prems(1) xs rest v zs_all by (simp add: takeWhile_append2)
  have skip: "skip_zwnj T h = h + length zs"
    by (simp add: skip_zwnj_takeWhile tw)
  have "drop (length zs + 1) (drop h T) = xs' @ c # ys"
    using Suc.prems(1) xs rest by simp
  then have d: "drop (Suc (h + length zs)) T = xs' @ c # ys"
    by (simp add: add.commute)
  have "filter (\<lambda>c. c \<noteq> zwnj) zs = []"
    using zs_all by (simp add: filter_empty_conv)
  then have cnt: "length (filter (\<lambda>c. c \<noteq> zwnj) xs') = k"
    using Suc.prems(3) xs rest v by simp
  have "highlight_for T (Suc k) (Suc (h + length zs)) = Suc (h + length zs) + length xs' + 1"
    using Suc.IH[OF d Suc.prems(2) cnt] .
  then show ?case
    using skip xs rest by simp
qed

text \<open>
  When fewer than \<open>m\<close> visible characters are left, the loop walks over every joiner
  and then counts one index for each remaining round.
\<close>

lemma highlight_for_runs_out:
  "length (filter (\<lambda>c. c \<noteq> zwnj) (drop h T)) < m \<Longrightarrow>
   highlight_for T m h = h + m + length (filter (\<lambda>c. c = zwnj) (drop h T))"
proof (induction m arbitrary: h)
  case 0
  then show ?case by simp
next
  case (Suc k)
  define zs where "zs = takeWhile (\<lambda>c. c = zwnj) (drop h T)"
  define rest where "rest = dropWhile (\<lambda>c. c = zwnj) (drop h T)"
  have dh: "drop h T = zs @ rest" by (simp add: zs_def rest_def)
  have zs_all: "\<forall>x\<in>set zs. x = zwnj"
    by (auto simp: zs_def dest: set_takeWhileD)
  have fz: "filter (\<lambda>c. c \<noteq> zwnj) zs = []" "filter (\<lambda>c. c = zwnj) zs = zs"
    using zs_all by (simp_all add: filter_empty_conv filter_id_conv)
  have skip: "skip_zwnj T h = h + length zs"
    by (simp add: skip_zwnj_takeWhile zs_def)
  have dq: "drop (h + length zs) T = rest"
    using dh by (metis add.commute append_eq_conv_conj drop_drop)
  show ?case
  proof (cases rest)
    case Nil
    then have e: "drop (Suc (h + length zs)) T = []"
      using dq by (metis drop_Nil drop_Suc tl_drop list.sel(2))
    have "highlight_for T k (Suc (h + length zs)) = Suc (h + length zs) + k"
    proof (cases k)
      case 0
      then show ?thesis by simp
    next
      case (Suc j)
      then show ?thesis using Suc.IH[of "Suc (h + length zs)"] e by simp
    qed
    then show ?thesis using skip dh Nil fz by simp
  next
    case (Cons v xs')
    have v: "v \<noteq> zwnj"
      using Cons hd_dropWhile[of "\<lambda>c. c = zwnj" "drop h T"] by (auto simp: rest_def)
    have e: "drop (Suc (h + length zs)) T = xs'"
      using dq Cons by (metis drop_Suc tl_drop list.sel(3))
    have "length (filter (\<lambda>c. c \<noteq> zwnj) xs') < k"
      using Suc.prems dh Cons v fz by simp
    then have "highlight_for T k (Suc (h + length zs)) =
        Suc (h + length zs) + k + length (filter (\<lambda>c. c = zwnj) xs')"
      using Suc.IH[of "Suc (h + length zs)"] e by simp
    then show ?thesis using skip dh Cons v fz by simp
  qed
qed

text \<open>
  Claim C2 (joiner-skip highlight length). For a response with original text \<open>T\<close> and
  match length \<open>m\<close>, the highlight length that \<open>processSearchResult\<close> computes is \<open>m\<close>
  plus the number of zero-width non-joiners of \<open>T\<close> in front of the \<open>m\<close>-th visible
  character. The \<open>m\<close>-th visible character sits at index \<open>p\<close> when \<open>T ! p\<close> is not a
  joiner and \<open>take p T\<close> holds \<open>m - 1\<close> visible characters. The two border cases are
  stated too: no round (\<open>m = 0\<close>) gives 0, and a text with fewer than \<open>m\<close> visible
  characters gives \<open>m\<close> plus all of its joiners.
\<close>

theorem highlightLength_joiner_skip:
  "highlightLength T 0 = 0 \<and>
   (\<forall>p. p < length T \<and> T ! p \<noteq> zwnj \<and>
        Suc (length (filter (\<lambda>c. c \<noteq> zwnj) (take p T))) = m \<longrightarrow>
        highlightLength T m = m + length (filter (\<lambda>c. c = zwnj) (take p T))) \<and>
   (length (filter (\<lambda>c. c \<noteq> zwnj) T) < m \<longrightarrow>
        highlightLength T m = m + length (filter (\<lambda>c. c = zwnj) T))"
proof (intro conjI allI impI)
  show "highlightLength T 0 = 0" by (simp add: highlightLength_def)
next
  fix p
  assume a: "p < length T \<and> T ! p \<noteq> zwnj \<and>
    Suc (length (filter (\<lambda>c. c \<noteq> zwnj) (take p T))) = m"
  then have d: "drop 0 T = take p T @ T ! p # drop (Suc p) T"
    by (simp add: id_take_nth_drop[symmetric])
  have "length (filter (\<lambda>c. c \<noteq> zwnj) (take p T)) +
      length (filter (\<lambda>c. c = zwnj) (take p T)) = length (take p T)"
    using sum_length_filter_compl[of "\<lambda>c. c \<noteq> zwnj" "take p T"] by simp
  then have p: "p = length (filter (\<lambda>c. c \<noteq> zwnj) (take p T)) +
      length (filter (\<lambda>c. c = zwnj) (take p T))"
    using a by simp
  have "highlight_for T (Suc (length (filter (\<lambda>c. c \<noteq> zwnj) (take p T)))) 0 =
      0 + length (take p T) + 1"
    using highlight_for_reaches[OF d _ refl] a by blast
  then show "highlightLength T m = m + length (filter (\<lambda>c. c = zwnj) (take p T))"
    using a p by (simp add: highlightLength_def)
next
  assume "length (filter (\<lambda>c. c \<noteq> zwnj) T) < m"
  then show "highlightLength T m = m + length (filter (\<lambda>c. c = zwnj) T)"
    using highlight_for_runs_out[of 0 T m] by (simp add: highlightLength_def)
qed

text \<open>
  The spec's example: the buffer is the two characters of the headword with one joiner
  between them; the match length 2 becomes the highlight length 3.
\<close>

theorem highlightLength_joiner_skip_witness:
  "(2::nat) < length [0x4E2D, zwnj, 0x56FD] \<and> [0x4E2D, zwnj, 0x56FD] ! 2 \<noteq> zwnj \<and>
   Suc (length (filter (\<lambda>c. c \<noteq> zwnj) (take 2 [0x4E2D, zwnj, 0x56FD]))) = 2 \<and>
   highlightLength [0x4E2D, zwnj, 0x56FD] 2 = 3"
proof -
  have h: "(2::nat) < length [0x4E2D, zwnj, 0x56FD] \<and> [0x4E2D, zwnj, 0x56FD] ! 2 \<noteq> zwnj \<and>
      Suc (length (filter (\<lambda>c. c \<noteq> zwnj) (take 2 [0x4E2D, zwnj, 0x56FD]))) = 2"
    by code_simp
  have j: "length (filter (\<lambda>c. c = zwnj) (take 2 [0x4E2D, zwnj, 0x56FD])) = 1"
    by code_simp
  have "highlightLength [0x4E2D, zwnj, 0x56FD] 2 =
      2 + length (filter (\<lambda>c. c = zwnj) (take 2 [0x4E2D, zwnj, 0x56FD]))"
    using highlightLength_joiner_skip[of "[0x4E2D, zwnj, 0x56FD]" 2] h by blast
  then have "highlightLength [0x4E2D, zwnj, 0x56FD] 2 = 3"
    by (simp only: j)
  with h show ?thesis by blast
qed

section \<open>The iterator and the next text node\<close>

lemma node_at_append:
  "node_at t (r @ s) = (case node_at t r of None \<Rightarrow> None | Some u \<Rightarrow> node_at u s)"
  by (induction t r rule: node_at.induct) auto

lemma text_paths_mem:
  "(q \<in> set (text_paths t)) = (\<exists>d. node_at t q = Some (Text d))"
  "(q \<in> set (text_paths_from k cs)) =
     (\<exists>j p d. q = (k + j) # p \<and> j < length cs \<and> node_at (cs ! j) p = Some (Text d))"
proof (induction t and k cs arbitrary: q and q rule: text_paths_text_paths_from.induct)
  case (1 d)
  show ?case by (cases q) auto
next
  case (2 d)
  show ?case by (cases q) auto
next
  case (3 f cs)
  show ?case
  proof (cases q)
    case Nil
    then show ?thesis using 3 by simp
  next
    case (Cons j p)
    then show ?thesis using 3 by auto
  qed
next
  case (4 i)
  show ?case by simp
next
  case (5 i c cs)
  show ?case
  proof
    assume "q \<in> set (text_paths_from i (c # cs))"
    then consider (a) "q \<in> (#) i ` set (text_paths c)" | (b) "q \<in> set (text_paths_from (Suc i) cs)"
      by auto
    then show "\<exists>j p d. q = (i + j) # p \<and> j < length (c # cs) \<and> node_at ((c # cs) ! j) p = Some (Text d)"
    proof cases
      case a
      then obtain p where "q = i # p" "p \<in> set (text_paths c)" by auto
      then obtain d where "node_at c p = Some (Text d)" using "5.IH"(1) by blast
      then have "q = (i + 0) # p \<and> 0 < length (c # cs) \<and> node_at ((c # cs) ! 0) p = Some (Text d)"
        using \<open>q = i # p\<close> by simp
      then show ?thesis by blast
    next
      case b
      then obtain j p d where "q = (Suc i + j) # p" "j < length cs" "node_at (cs ! j) p = Some (Text d)"
        using "5.IH"(2) by blast
      then have "q = (i + Suc j) # p \<and> Suc j < length (c # cs) \<and> node_at ((c # cs) ! Suc j) p = Some (Text d)"
        by simp
      then show ?thesis by blast
    qed
  next
    assume "\<exists>j p d. q = (i + j) # p \<and> j < length (c # cs) \<and> node_at ((c # cs) ! j) p = Some (Text d)"
    then obtain j p d where h: "q = (i + j) # p" "j < length (c # cs)" "node_at ((c # cs) ! j) p = Some (Text d)"
      by blast
    show "q \<in> set (text_paths_from i (c # cs))"
    proof (cases j)
      case 0
      then have "p \<in> set (text_paths c)" using h "5.IH"(1) by auto
      then show ?thesis using h 0 by simp
    next
      case (Suc j')
      then have "q = (Suc i + j') # p \<and> j' < length cs \<and> node_at (cs ! j') p = Some (Text d)"
        using h by simp
      then have "q \<in> set (text_paths_from (Suc i) cs)" using "5.IH"(2) by blast
      then show ?thesis by simp
    qed
  qed
qed

lemma text_paths_distinct:
  "distinct (text_paths t)"
  "distinct (text_paths_from k cs)"
proof (induction t and k cs rule: text_paths_text_paths_from.induct)
  case (5 i c cs)
  have "set (map ((#) i) (text_paths c)) \<inter> set (text_paths_from (Suc i) cs) = {}"
    by (auto simp: text_paths_mem(2))
  then show ?case using 5 by (simp add: distinct_map)
qed simp_all

lemma text_paths_from_nth:
  "i < length cs \<Longrightarrow>
   \<exists>A B. text_paths_from k cs = A @ map ((#) (k + i)) (text_paths (cs ! i)) @ B"
proof (induction cs arbitrary: k i)
  case Nil
  then show ?case by simp
next
  case (Cons c cs)
  show ?case
  proof (cases i)
    case 0
    have "text_paths_from k (c # cs) = [] @ map ((#) (k + 0)) (text_paths c) @ text_paths_from (Suc k) cs"
      by simp
    then show ?thesis using 0 by (metis nth_Cons_0)
  next
    case (Suc j)
    then have "j < length cs" using Cons.prems by simp
    from Cons.IH[OF this, of "Suc k"] obtain A B where
      "text_paths_from (Suc k) cs = A @ map ((#) (Suc k + j)) (text_paths (cs ! j)) @ B"
      by blast
    then have "text_paths_from k (c # cs) =
        (map ((#) k) (text_paths c) @ A) @ map ((#) (k + i)) (text_paths ((c # cs) ! i)) @ B"
      using Suc by simp
    then show ?thesis by blast
  qed
qed

lemma text_paths_sub:
  "node_at t r = Some u \<Longrightarrow> \<exists>A B. text_paths t = A @ map ((@) r) (text_paths u) @ B"
proof (induction r arbitrary: t)
  case Nil
  have "map ((@) []) (text_paths u) = text_paths u"
    by (induction "text_paths u") (simp_all add: map_idI)
  with Nil have "text_paths t = [] @ map ((@) []) (text_paths u) @ []" by simp
  then show ?case by blast
next
  case (Cons i r)
  then obtain f cs where t: "t = Element f cs" and i: "i < length cs"
      and u: "node_at (cs ! i) r = Some u"
    by (cases t) (auto split: if_splits)
  from text_paths_from_nth[OF i, of 0] obtain A1 B1 where
    1: "text_paths_from 0 cs = A1 @ map ((#) i) (text_paths (cs ! i)) @ B1" by auto
  from Cons.IH[OF u] obtain A2 B2 where
    2: "text_paths (cs ! i) = A2 @ map ((@) r) (text_paths u) @ B2" by blast
  have "text_paths t = (A1 @ map ((#) i) A2) @ map ((@) (i # r)) (text_paths u) @ (map ((#) i) B2 @ B1)"
    using t 1 2 by simp
  then show ?case by blast
qed

lemma nodeIterator_sub:
  "\<exists>A B. nodeIterator doc r = A @ nodeIterator doc (r @ s) @ B"
proof (cases "node_at doc (r @ s)")
  case None
  then have "nodeIterator doc r = nodeIterator doc r @ nodeIterator doc (r @ s) @ []"
    by (simp add: nodeIterator_def)
  then show ?thesis by blast
next
  case (Some u)
  then obtain t where t: "node_at doc r = Some t" and u: "node_at t s = Some u"
    by (auto simp: node_at_append split: option.splits)
  from text_paths_sub[OF u] obtain A B where
    "text_paths t = A @ map ((@) s) (text_paths u) @ B" by blast
  then have "nodeIterator doc r = map ((@) r) A @ nodeIterator doc (r @ s) @ map ((@) r) B"
    using t Some by (simp add: nodeIterator_def)
  then show ?thesis by blast
qed

lemma nodeIterator_distinct: "distinct (nodeIterator doc r)"
  by (auto simp: nodeIterator_def distinct_map text_paths_distinct inj_on_def split: option.splits)

lemma nodeIterator_mem:
  "(q \<in> set (nodeIterator doc [])) = (\<exists>d. node_at doc q = Some (Text d))"
  by (simp add: nodeIterator_def text_paths_mem(1))

lemma nodeIterator_subset:
  "q \<in> set (nodeIterator doc (r @ s)) \<Longrightarrow> q \<in> set (nodeIterator doc r)"
  using nodeIterator_sub[of doc r s] by auto

lemma nodeIterator_parent_mem:
  assumes "node_at doc (r @ [i]) = Some (Text d)"
  shows "r @ [i] \<in> set (nodeIterator doc r)"
proof -
  from assms obtain t where t: "node_at doc r = Some t" and "node_at t [i] = Some (Text d)"
    by (auto simp: node_at_append split: option.splits)
  then have "[i] \<in> set (text_paths t)" by (auto simp: text_paths_mem(1))
  then show ?thesis using t by (auto simp: nodeIterator_def)
qed

lemma after_in_skip: "a \<noteq> x \<Longrightarrow> after_in x (a # M) = after_in x M"
  by (cases M) auto

lemma after_in_notin: "x \<notin> set L \<Longrightarrow> after_in x L = None"
  by (induction L) (auto simp: after_in_skip)

lemma after_in_prepend: "x \<notin> set A \<Longrightarrow> after_in x (A @ L) = after_in x L"
  by (induction A) (auto simp: after_in_skip)

lemma after_in_append: "after_in x L = Some y \<Longrightarrow> after_in x (L @ B) = Some y"
  by (induction x L rule: after_in.induct) (auto split: if_splits)

lemma after_in_split:
  "p \<notin> set pre \<Longrightarrow> after_in p (pre @ p # rest) = (case rest of [] \<Rightarrow> None | q # qs \<Rightarrow> Some q)"
  by (cases rest) (auto simp: after_in_prepend)

lemma findNextTextNode_notin:
  "previous \<notin> set (nodeIterator doc []) \<Longrightarrow> findNextTextNode doc root previous = None"
proof (induction doc root previous rule: findNextTextNode.induct)
  case (1 doc previous)
  show ?case by simp
next
  case (2 doc root previous)
  have "previous \<notin> set (nodeIterator doc root)"
    using "2.prems" nodeIterator_subset[of previous doc "[]" root] by auto
  then have n: "after_in previous (nodeIterator doc root) = None"
    by (rule after_in_notin)
  with 2 show ?case by simp
qed

lemma findNextTextNode_in:
  "previous \<in> set (nodeIterator doc root) \<Longrightarrow>
   findNextTextNode doc (Some root) previous = after_in previous (nodeIterator doc [])"
proof (induction root rule: rev_induct)
  case Nil
  show ?case by (simp add: parentNode_def split: option.splits)
next
  case (snoc i r)
  obtain A B where AB: "nodeIterator doc [] = A @ nodeIterator doc (r @ [i]) @ B"
    using nodeIterator_sub[of doc "[]" "r @ [i]"] by auto
  show ?case
  proof (cases "after_in previous (nodeIterator doc (r @ [i]))")
    case None
    have "previous \<in> set (nodeIterator doc r)"
      using snoc.prems by (rule nodeIterator_subset)
    then have "findNextTextNode doc (Some r) previous = after_in previous (nodeIterator doc [])"
      by (rule snoc.IH)
    then show ?thesis using None by (simp add: parentNode_def)
  next
    case (Some y)
    have "distinct (A @ nodeIterator doc (r @ [i]) @ B)"
      using nodeIterator_distinct[of doc "[]"] AB by simp
    then have "previous \<notin> set A" using snoc.prems by auto
    then have "after_in previous (nodeIterator doc []) = Some y"
      using Some AB by (simp add: after_in_prepend after_in_append)
    then show ?thesis using Some by simp
  qed
qed

lemma findNextTextNode_parent:
  "findNextTextNode doc (parentNode p) p = after_in p (nodeIterator doc [])"
proof (cases "p \<in> set (nodeIterator doc [])")
  case False
  then show ?thesis by (simp add: findNextTextNode_notin after_in_notin)
next
  case True
  then obtain d where d: "node_at doc p = Some (Text d)"
    by (auto simp: nodeIterator_mem)
  show ?thesis
  proof (cases p rule: rev_cases)
    case Nil
    then have "doc = Text d" using d by simp
    then show ?thesis using Nil by (simp add: parentNode_def nodeIterator_def)
  next
    case (snoc r i)
    then have "p \<in> set (nodeIterator doc r)"
      using d nodeIterator_parent_mem by simp
    then show ?thesis
      using snoc findNextTextNode_in[of p doc r] by (simp add: parentNode_def)
  qed
qed

section \<open>What getText collects\<close>

lemma substring_0: "substring d 0 e = take e d"
  by (simp add: substring_def Let_def min_def)

lemma substring_from: "a \<le> length d \<Longrightarrow> substring d a (min (length d) (a + n)) = take n (drop a d)"
  by (auto simp: substring_def Let_def min_def max_def)

lemma text_node_facts:
  "node_at doc q = Some (Text d) \<Longrightarrow> node_data doc q = d \<and> node_length doc q = length d"
  by (simp add: node_data_def node_length_def data_of_def)

lemma getText_loop_collect:
  assumes "nodeIterator doc [] = pre @ p # rest"
  shows "\<exists>cps. getText_loop doc n buf sel p =
            Some (buf @ take (n - length buf) (concat (map (node_data doc) rest)), sel @ cps) \<and>
          map cp_node cps = take (length cps) rest \<and>
          sum_list (map cp_offset cps) =
            length (take (n - length buf) (concat (map (node_data doc) rest))) \<and>
          (\<forall>c\<in>set cps. cp_offset c \<le> node_length doc (cp_node c))"
  using assms
proof (induction rest arbitrary: pre p buf sel)
  case Nil
  have "distinct (pre @ [p])" using Nil nodeIterator_distinct[of doc "[]"] by simp
  then have "p \<notin> set pre" by simp
  then have "findNextTextNode doc (parentNode p) p = None"
    using Nil by (simp add: findNextTextNode_parent after_in_split)
  then have "getText_loop doc n buf sel p = Some (buf, sel)"
    by (subst getText_loop.simps) simp
  then show ?case by simp
next
  case (Cons q rest)
  have dist: "distinct (pre @ p # q # rest)"
    using Cons.prems nodeIterator_distinct[of doc "[]"] by simp
  then have "p \<notin> set pre" by simp
  then have nxt: "findNextTextNode doc (parentNode p) p = Some q"
    using Cons.prems by (simp add: findNextTextNode_parent after_in_split)
  show ?case
  proof (cases "length buf < n")
    case False
    then have "getText_loop doc n buf sel p = Some (buf, sel)"
      by (subst getText_loop.simps) simp
    then show ?thesis using False by simp
  next
    case True
    define b where "b = n - length buf"
    have "q \<in> set (nodeIterator doc [])" using Cons.prems by simp
    then obtain d where d: "node_at doc q = Some (Text d)"
      by (auto simp: nodeIterator_mem)
    define e where "e = min b (length d)"
    have single: "getTextFromSingleNode doc q sel b =
        (take e d, sel @ [\<lparr>cp_node = q, cp_offset = e\<rparr>])"
      using d by (simp add: getTextFromSingleNode_def Let_def substring_0 e_def)
    have step: "getText_loop doc n buf sel p =
        getText_loop doc n (buf @ take e d) (sel @ [\<lparr>cp_node = q, cp_offset = e\<rparr>]) q"
      using True nxt single by (subst getText_loop.simps) (simp add: b_def)
    have "nodeIterator doc [] = (pre @ [p]) @ q # rest" using Cons.prems by simp
    from Cons.IH[OF this, of "buf @ take e d" "sel @ [\<lparr>cp_node = q, cp_offset = e\<rparr>]"]
    obtain cps where
      r: "getText_loop doc n (buf @ take e d) (sel @ [\<lparr>cp_node = q, cp_offset = e\<rparr>]) q =
          Some ((buf @ take e d) @
                  take (n - length (buf @ take e d)) (concat (map (node_data doc) rest)),
                (sel @ [\<lparr>cp_node = q, cp_offset = e\<rparr>]) @ cps)"
      and nodes: "map cp_node cps = take (length cps) rest"
      and total: "sum_list (map cp_offset cps) =
          length (take (n - length (buf @ take e d)) (concat (map (node_data doc) rest)))"
      and bound: "\<forall>c\<in>set cps. cp_offset c \<le> node_length doc (cp_node c)"
      by blast
    have dq: "node_data doc q = d" "node_length doc q = length d"
      using text_node_facts[OF d] by simp_all
    have len: "n - length (buf @ take e d) = b - length d"
      using True by (auto simp: b_def e_def min_def)
    have cat: "take e d @ take (b - length d) (concat (map (node_data doc) rest)) =
        take b (concat (map (node_data doc) (q # rest)))"
      by (simp add: dq e_def min_def)
    let ?cps = "\<lparr>cp_node = q, cp_offset = e\<rparr> # cps"
    have 1: "getText_loop doc n buf sel p =
        Some (buf @ take (n - length buf) (concat (map (node_data doc) (q # rest))), sel @ ?cps)"
      using step r len cat by (simp add: b_def)
    have 2: "map cp_node ?cps = take (length ?cps) (q # rest)"
      using nodes by simp
    have "e + length (take (b - length d) X) = length (take b (d @ X))" for X :: jsstring
      by (auto simp: e_def min_def)
    from this[of "concat (map (node_data doc) rest)"]
    have "e + length (take (b - length d) (concat (map (node_data doc) rest))) =
        length (take b (concat (map (node_data doc) (q # rest))))"
      by (simp only: list.map concat.simps dq)
    then have 3: "sum_list (map cp_offset ?cps) =
        length (take (n - length buf) (concat (map (node_data doc) (q # rest))))"
      using total len by (simp add: b_def)
    have 4: "\<forall>c\<in>set ?cps. cp_offset c \<le> node_length doc (cp_node c)"
      using bound dq by (simp add: e_def)
    show ?thesis
      using 1 2 3 4 by (intro exI[of _ ?cps] conjI)
  qed
qed

lemma getText_collect:
  assumes d: "node_at doc startNode = Some (Text d)" and off: "offset \<le> length d"
  shows "\<exists>cps. getText doc startNode offset sel n =
            Some (take n (drop offset d @ concat (map (node_data doc) (following doc startNode))),
                  sel @ cps) \<and>
          map cp_node cps = startNode # take (length cps - 1) (following doc startNode) \<and>
          cps \<noteq> [] \<and>
          sum_list (map cp_offset cps) =
            offset + length (take n (drop offset d @ concat (map (node_data doc) (following doc startNode)))) \<and>
          (\<forall>c\<in>set cps. cp_offset c \<le> node_length doc (cp_node c))"
proof -
  have "startNode \<in> set (nodeIterator doc [])"
    using d by (auto simp: nodeIterator_mem)
  then obtain pre rest where split: "nodeIterator doc [] = pre @ startNode # rest"
    by (meson split_list)
  have "distinct (pre @ startNode # rest)"
    using split nodeIterator_distinct[of doc "[]"] by simp
  then have "startNode \<notin> set pre" by simp
  then have "dropWhile (\<lambda>q. q \<noteq> startNode) (pre @ startNode # rest) = startNode # rest"
    by (auto simp: dropWhile_append3)
  then have fol: "following doc startNode = rest"
    by (simp add: following_def split)
  define e where "e = min (length d) (offset + n)"
  define t where "t = take n (drop offset d)"
  have t: "substring d offset e = t"
    using off by (simp add: e_def t_def substring_from)
  have e: "e = offset + length t"
    using off by (auto simp: e_def t_def min_def)
  from getText_loop_collect[OF split, of n t "sel @ [\<lparr>cp_node = startNode, cp_offset = e\<rparr>]"]
  obtain cps where
    r: "getText_loop doc n t (sel @ [\<lparr>cp_node = startNode, cp_offset = e\<rparr>]) startNode =
        Some (t @ take (n - length t) (concat (map (node_data doc) rest)),
              (sel @ [\<lparr>cp_node = startNode, cp_offset = e\<rparr>]) @ cps)"
    and nodes: "map cp_node cps = take (length cps) rest"
    and total: "sum_list (map cp_offset cps) =
        length (take (n - length t) (concat (map (node_data doc) rest)))"
    and bound: "\<forall>c\<in>set cps. cp_offset c \<le> node_length doc (cp_node c)"
    by blast
  have cat: "t @ take (n - length t) (concat (map (node_data doc) rest)) =
      take n (drop offset d @ concat (map (node_data doc) rest))"
    by (auto simp: t_def min_def)
  let ?cps = "\<lparr>cp_node = startNode, cp_offset = e\<rparr> # cps"
  have 1: "getText doc startNode offset sel n =
      Some (take n (drop offset d @ concat (map (node_data doc) rest)), sel @ ?cps)"
    using d r t cat by (simp add: getText_def Let_def e_def)
  have 2: "map cp_node ?cps = startNode # take (length ?cps - 1) rest"
    using nodes by simp
  have "length (take n (drop offset d @ concat (map (node_data doc) rest))) =
      length t + length (take (n - length t) (concat (map (node_data doc) rest)))"
    using cat by (metis length_append)
  then have 3: "sum_list (map cp_offset ?cps) =
      offset + length (take n (drop offset d @ concat (map (node_data doc) rest)))"
    using total e by simp
  have 4: "\<forall>c\<in>set ?cps. cp_offset c \<le> node_length doc (cp_node c)"
    using bound text_node_facts[OF d] by (simp add: e_def)
  have 5: "?cps \<noteq> []" by simp
  show ?thesis
    unfolding fol using 1 2 5 3 4 by (intro exI[of _ ?cps] conjI)
qed

lemma project_valid:
  "cps \<noteq> [] \<Longrightarrow> 0 \<le> x \<Longrightarrow> x \<le> int (sum_list (map cp_offset cps)) \<Longrightarrow>
   project cps c0 x = (selEnd, off) \<Longrightarrow>
   selEnd \<in> set cps \<and> 0 \<le> off \<and> off \<le> int (cp_offset selEnd)"
proof (induction cps arbitrary: c0 x)
  case Nil
  then show ?case by simp
next
  case (Cons c cs)
  show ?case
  proof (cases "x \<le> int (cp_offset c)")
    case True
    then show ?thesis using Cons.prems by auto
  next
    case False
    then have "cs \<noteq> []" using Cons.prems by (cases cs) auto
    moreover have "0 \<le> x - int (cp_offset c)" using False by simp
    moreover have "x - int (cp_offset c) \<le> int (sum_list (map cp_offset cs))"
      using Cons.prems by simp
    moreover have "project cs c (x - int (cp_offset c)) = (selEnd, off)"
      using Cons.prems False by simp
    ultimately have "selEnd \<in> set cs \<and> 0 \<le> off \<and> off \<le> int (cp_offset selEnd)"
      by (rule Cons.IH)
    then show ?thesis by simp
  qed
qed

text \<open>
  Claim C3 (span collection respects its budget). From a valid start position, a text
  node and an offset inside it, \<open>getText\<close> returns, and the buffer is the first \<open>n\<close>
  characters of the text that starts at the offset and runs on through the following
  text nodes of the document. Its length is therefore at most \<open>n\<close>, and equal to \<open>n\<close>
  unless the start node and the text nodes behind it hold fewer characters, in which
  case it is all of them.
\<close>

theorem getText_respects_budget:
  assumes "node_at doc startNode = Some (Text d)" and "offset < length d"
  shows "\<exists>buffer cps. getText doc startNode offset selEndList n = Some (buffer, cps) \<and>
           buffer = take n (drop offset d @ concat (map (node_data doc) (following doc startNode))) \<and>
           length buffer \<le> n \<and>
           length buffer =
             min n (length d - offset +
                    sum_list (map (\<lambda>q. length (node_data doc q)) (following doc startNode)))"
proof -
  from assms have "offset \<le> length d" by simp
  from getText_collect[OF assms(1) this, of selEndList n]
  obtain cps where
    "getText doc startNode offset selEndList n =
       Some (take n (drop offset d @ concat (map (node_data doc) (following doc startNode))),
             selEndList @ cps)"
    by blast
  moreover have "length (concat (map (node_data doc) (following doc startNode))) =
      sum_list (map (\<lambda>q. length (node_data doc q)) (following doc startNode))"
    by (simp add: length_concat comp_def)
  ultimately show ?thesis
    by (auto simp: min_def)
qed

text \<open>
  On the example page, from the fifth character of the paragraph: a budget of 3 is used
  up, a budget of 7 gets the 5 characters that are left.
\<close>

theorem getText_respects_budget_witness:
  "node_at example_page [0, 0] = Some (Text [0x4E2D, 0x56FD, 0x4EBA, 0x6C11, 0x94F6, 0x884C]) \<and>
   (4::nat) < length [0x4E2D, 0x56FD, 0x4EBA, 0x6C11, 0x94F6, 0x884C :: jschar] \<and>
   (\<exists>buffer cps. getText example_page [0, 0] 4 [] 3 = Some (buffer, cps) \<and> length buffer = 3) \<and>
   (\<exists>buffer cps. getText example_page [0, 0] 4 [] 7 = Some (buffer, cps) \<and> length buffer = 5)"
proof -
  have n: "node_at example_page [0, 0] = Some (Text [0x4E2D, 0x56FD, 0x4EBA, 0x6C11, 0x94F6, 0x884C])"
    by code_simp
  have o: "(4::nat) < length [0x4E2D, 0x56FD, 0x4EBA, 0x6C11, 0x94F6, 0x884C :: jschar]"
    by simp
  have f: "min 3 (length [0x4E2D, 0x56FD, 0x4EBA, 0x6C11, 0x94F6, 0x884C :: jschar] - 4 +
      sum_list (map (\<lambda>q. length (node_data example_page q)) (following example_page [0, 0]))) = 3"
     "min 7 (length [0x4E2D, 0x56FD, 0x4EBA, 0x6C11, 0x94F6, 0x884C :: jschar] - 4 +
      sum_list (map (\<lambda>q. length (node_data example_page q)) (following example_page [0, 0]))) = 5"
    by code_simp+
  from getText_respects_budget[OF n o, of "[]" 3] f(1)
  have a: "\<exists>buffer cps. getText example_page [0, 0] 4 [] 3 = Some (buffer, cps) \<and> length buffer = 3"
    by metis
  from getText_respects_budget[OF n o, of "[]" 7] f(2)
  have b: "\<exists>buffer cps. getText example_page [0, 0] 4 [] 7 = Some (buffer, cps) \<and> length buffer = 5"
    by metis
  from n o a b show ?thesis by blast
qed

lemma unsigned_long_le:
  "0 \<le> x \<Longrightarrow> x \<le> int k \<Longrightarrow> unsigned_long x \<le> k"
proof -
  assume "0 \<le> x" and "x \<le> int k"
  moreover from this have "x mod 4294967296 \<le> x"
    by (simp add: zmod_le_nonneg_dividend)
  ultimately show ?thesis by (simp add: unsigned_long_def)
qed

lemma setStart_ok:
  "0 \<le> x \<Longrightarrow> x \<le> int (node_length doc n) \<Longrightarrow> \<exists>r'. setStart doc r n x = Inr r'"
  using unsigned_long_le[of x "node_length doc n"] by (simp add: setStart_def Let_def)

lemma setEnd_ok:
  "0 \<le> x \<Longrightarrow> x \<le> int (node_length doc n) \<Longrightarrow> \<exists>r'. setEnd doc r n x = Inr r'"
  using unsigned_long_le[of x "node_length doc n"] by (simp add: setEnd_def Let_def)

text \<open>
  Claim C4, as amended. The offset of a checkpoint is an offset inside its own node (the
  end of what was taken from that node), so the offsets sum up to the start offset plus
  the length of the buffer and need not grow from one checkpoint to the next. The
  checkpoints are recorded in document order: the start node, then the text nodes that
  follow it, each with an offset within the length of its node. Projecting a match
  length of at most the length of the buffer stops at one of the checkpoints with an
  offset between 0 and the offset recorded there, so both boundary points of the range
  are accepted and \<open>highlightMatch\<close> raises no error.
\<close>

theorem projection_valid:
  assumes "node_at doc startNode = Some (Text d)" and "offset < length d"
    and "getText doc startNode offset [] n = Some (buffer, cps)"
    and "m \<le> length buffer"
    and "document st = doc"
  shows "sum_list (map cp_offset cps) = offset + length buffer \<and>
         map cp_node cps = startNode # take (length cps - 1) (following doc startNode) \<and>
         (\<forall>c\<in>set cps. cp_offset c \<le> node_length doc (cp_node c)) \<and>
         (\<exists>c cs selEnd off. cps = c # cs \<and>
            project (c # cs) c (int offset + int m) = (selEnd, off) \<and>
            selEnd \<in> set cps \<and> 0 \<le> off \<and> off \<le> int (cp_offset selEnd) \<and>
            cp_offset selEnd \<le> node_length doc (cp_node selEnd)) \<and>
         fst (highlightMatch startNode (int offset) m cps st) = None"
proof -
  from assms(2) have le: "offset \<le> length d" by simp
  from getText_collect[OF assms(1) le, of "[]" n] assms(3)
  have total: "sum_list (map cp_offset cps) = offset + length buffer"
    and nodes: "map cp_node cps = startNode # take (length cps - 1) (following doc startNode)"
    and ne: "cps \<noteq> []"
    and bound: "\<forall>c\<in>set cps. cp_offset c \<le> node_length doc (cp_node c)"
    by auto
  from ne obtain c cs where cps: "cps = c # cs" by (cases cps) auto
  obtain selEnd off where p: "project (c # cs) c (int offset + int m) = (selEnd, off)"
    by (cases "project (c # cs) c (int offset + int m)") auto
  have "int offset + int m \<le> int (sum_list (map cp_offset cps))"
    using total assms(4) by simp
  with project_valid[of cps "int offset + int m" c selEnd off] ne p cps
  have v: "selEnd \<in> set cps" "0 \<le> off" "off \<le> int (cp_offset selEnd)"
    by auto
  have b: "cp_offset selEnd \<le> node_length doc (cp_node selEnd)"
    using bound v(1) by blast
  have "int offset \<le> int (node_length doc startNode)"
    using le text_node_facts[OF assms(1)] by simp
  then obtain r1 where r1: "setStart doc createRange startNode (int offset) = Inr r1"
    using setStart_ok[of "int offset" doc startNode createRange] by auto
  have "off \<le> int (node_length doc (cp_node selEnd))"
    using v(3) b by simp
  then obtain r2 where r2: "setEnd doc r1 (cp_node selEnd) off = Inr r2"
    using setEnd_ok[of off doc "cp_node selEnd" r1] v(2) by auto
  have h: "fst (highlightMatch startNode (int offset) m cps st) = None"
    using cps p r1 r2 assms(5) by (simp add: highlightMatch_def Let_def)
  show ?thesis
    using total nodes bound cps p v b h by blast
qed

text \<open>
  On the example page the whole buffer of 7 characters is projected: the end of the
  range is one character into the second text node.
\<close>

theorem projection_valid_witness:
  "node_at example_page [0, 0] = Some (Text [0x4E2D, 0x56FD, 0x4EBA, 0x6C11, 0x94F6, 0x884C]) \<and>
   (0::nat) < length [0x4E2D, 0x56FD, 0x4EBA, 0x6C11, 0x94F6, 0x884C :: jschar] \<and>
   getText example_page [0, 0] 0 [] 7 =
     Some ([0x4E2D, 0x56FD, 0x4EBA, 0x6C11, 0x94F6, 0x884C, 0x4F60],
           [\<lparr>cp_node = [0, 0], cp_offset = 6\<rparr>, \<lparr>cp_node = [0, 1, 0], cp_offset = 1\<rparr>]) \<and>
   (7::nat) \<le> length [0x4E2D, 0x56FD, 0x4EBA, 0x6C11, 0x94F6, 0x884C, 0x4F60 :: jschar] \<and>
   document (init example_page) = example_page \<and>
   fst (highlightMatch [0, 0] (int 0) 7
          [\<lparr>cp_node = [0, 0], cp_offset = 6\<rparr>, \<lparr>cp_node = [0, 1, 0], cp_offset = 1\<rparr>]
          (init example_page)) = None"
proof -
  have n: "node_at example_page [0, 0] = Some (Text [0x4E2D, 0x56FD, 0x4EBA, 0x6C11, 0x94F6, 0x884C])"
    by code_simp
  have o: "(0::nat) < length [0x4E2D, 0x56FD, 0x4EBA, 0x6C11, 0x94F6, 0x884C :: jschar]"
    by simp
  have g: "getText example_page [0, 0] 0 [] 7 =
     Some ([0x4E2D, 0x56FD, 0x4EBA, 0x6C11, 0x94F6, 0x884C, 0x4F60],
           [\<lparr>cp_node = [0, 0], cp_offset = 6\<rparr>, \<lparr>cp_node = [0, 1, 0], cp_offset = 1\<rparr>])"
    by code_simp
  have m: "(7::nat) \<le> length [0x4E2D, 0x56FD, 0x4EBA, 0x6C11, 0x94F6, 0x884C, 0x4F60 :: jschar]"
    by simp
  have d: "document (init example_page) = example_page"
    by (simp add: init_def)
  from projection_valid[OF n o g m d]
  have "fst (highlightMatch [0, 0] (int 0) 7
          [\<lparr>cp_node = [0, 0], cp_offset = 6\<rparr>, \<lparr>cp_node = [0, 1, 0], cp_offset = 1\<rparr>]
          (init example_page)) = None"
    by blast
  with n o g m d show ?thesis by blast
qed

text \<open>
  The claim as written fails in its first half: on the example page the hover at the
  start of the paragraph records the offsets 6 and 1, in this order.
\<close>

theorem checkpoint_offsets_not_monotone:
  "getText example_page [0, 0] 0 [] 7 =
     Some ([0x4E2D, 0x56FD, 0x4EBA, 0x6C11, 0x94F6, 0x884C, 0x4F60],
           [\<lparr>cp_node = [0, 0], cp_offset = 6\<rparr>, \<lparr>cp_node = [0, 1, 0], cp_offset = 1\<rparr>]) \<and>
   \<not> sorted (map cp_offset [\<lparr>cp_node = [0, 0], cp_offset = 6\<rparr>, \<lparr>cp_node = [0, 1, 0], cp_offset = 1\<rparr>])"
proof -
  have "getText example_page [0, 0] 0 [] 7 =
     Some ([0x4E2D, 0x56FD, 0x4EBA, 0x6C11, 0x94F6, 0x884C, 0x4F60],
           [\<lparr>cp_node = [0, 0], cp_offset = 6\<rparr>, \<lparr>cp_node = [0, 1, 0], cp_offset = 1\<rparr>])"
    by code_simp
  then show ?thesis by simp
qed

section \<open>The search request\<close>

lemma indexOf_scan_Some:
  "indexOf_scan s pat k = Some r \<Longrightarrow>
   k \<le> r \<and> r + length pat \<le> length s \<and> take (length pat) (drop r s) = pat \<and>
   (\<forall>j. k \<le> j \<and> j < r \<longrightarrow> take (length pat) (drop j s) \<noteq> pat)"
proof (induction s pat k rule: indexOf_scan.induct)
  case (1 s pat k)
  show ?case
  proof (cases "length s < k + length pat")
    case True
    with "1.prems" show ?thesis by (subst (asm) indexOf_scan.simps) simp
  next
    case False
    show ?thesis
    proof (cases "take (length pat) (drop k s) = pat")
      case True
      with False "1.prems" have "r = k" by (subst (asm) indexOf_scan.simps) simp
      with True False show ?thesis by auto
    next
      case ne: False
      with False "1.prems" have "indexOf_scan s pat (Suc k) = Some r"
        by (subst (asm) indexOf_scan.simps) simp
      from "1.IH"[OF False ne this]
      have ih: "Suc k \<le> r" "r + length pat \<le> length s" "take (length pat) (drop r s) = pat"
        "\<forall>j. Suc k \<le> j \<and> j < r \<longrightarrow> take (length pat) (drop j s) \<noteq> pat"
        by auto
      have "\<forall>j. k \<le> j \<and> j < r \<longrightarrow> take (length pat) (drop j s) \<noteq> pat"
      proof (intro allI impI)
        fix j assume "k \<le> j \<and> j < r"
        then have "j = k \<or> (Suc k \<le> j \<and> j < r)" by auto
        then show "take (length pat) (drop j s) \<noteq> pat" using ne ih(4) by auto
      qed
      with ih show ?thesis by simp
    qed
  qed
qed

lemma indexOf_scan_None:
  "indexOf_scan s pat k = None \<Longrightarrow> k \<le> j \<Longrightarrow> j + length pat \<le> length s \<Longrightarrow>
   take (length pat) (drop j s) \<noteq> pat"
proof (induction s pat k rule: indexOf_scan.induct)
  case (1 s pat k)
  have nlt: "\<not> length s < k + length pat" using "1.prems" by simp
  have ne: "take (length pat) (drop k s) \<noteq> pat"
    using "1.prems"(1) nlt by (subst (asm) indexOf_scan.simps) (auto split: if_splits)
  show ?case
  proof (cases "j = k")
    case True
    with ne show ?thesis by simp
  next
    case False
    have "indexOf_scan s pat (Suc k) = None"
      using "1.prems"(1) nlt ne by (subst (asm) indexOf_scan.simps) simp
    from "1.IH"[OF nlt ne this] False "1.prems" show ?thesis by simp
  qed
qed

text \<open>Replacing by the empty string: either the pattern does not occur and the string
  stays, or its first occurrence is cut out.\<close>

lemma replace_first:
  "((\<forall>j. j + length pat \<le> length s \<longrightarrow> take (length pat) (drop j s) \<noteq> pat) \<and> replace s pat [] = s) \<or>
   (\<exists>pre post. s = pre @ pat @ post \<and> replace s pat [] = pre @ post \<and>
      (\<forall>j<length pre. take (length pat) (drop j s) \<noteq> pat))"
proof (cases "indexOf s pat 0")
  case None
  then have "indexOf_scan s pat 0 = None" by (simp add: indexOf_def)
  then have "\<forall>j. j + length pat \<le> length s \<longrightarrow> take (length pat) (drop j s) \<noteq> pat"
    using indexOf_scan_None[of s pat 0] by simp
  moreover have "replace s pat [] = s" using None by (simp add: replace_def)
  ultimately show ?thesis by blast
next
  case (Some k)
  then have "indexOf_scan s pat 0 = Some k" by (simp add: indexOf_def)
  from indexOf_scan_Some[OF this]
  have k: "k + length pat \<le> length s" "take (length pat) (drop k s) = pat"
    "\<forall>j. j < k \<longrightarrow> take (length pat) (drop j s) \<noteq> pat"
    by auto
  have "s = take k s @ drop k s" by simp
  also have "drop k s = take (length pat) (drop k s) @ drop (length pat) (drop k s)"
    by (simp only: append_take_drop_id)
  finally have s: "s = take k s @ pat @ drop (k + length pat) s"
    using k(2) by (simp only: drop_drop add.commute)
  have r: "replace s pat [] = take k s @ drop (k + length pat) s"
    using Some by (simp add: replace_def)
  have "length (take k s) = k" using k(1) by simp
  with s r k(3) show ?thesis by metis
qed

lemma replace_filter:
  assumes "\<forall>c\<in>set pat. \<not> P c"
  shows "filter P (replace s pat []) = filter P s"
proof -
  from replace_first[of pat s] show ?thesis
  proof
    assume "(\<forall>j. j + length pat \<le> length s \<longrightarrow> take (length pat) (drop j s) \<noteq> pat) \<and> replace s pat [] = s"
    then show ?thesis by simp
  next
    assume "\<exists>pre post. s = pre @ pat @ post \<and> replace s pat [] = pre @ post \<and>
      (\<forall>j<length pre. take (length pat) (drop j s) \<noteq> pat)"
    then obtain pre post where "s = pre @ pat @ post" "replace s pat [] = pre @ post" by blast
    moreover have "filter P pat = []" using assms by (simp add: filter_empty_conv)
    ultimately show ?thesis by (metis append_Nil filter_append)
  qed
qed

lemma zwnj_not_in_entity: "\<forall>c\<in>set (ascii ''&zwnj''). \<not> c = zwnj"
  by (simp add: ascii_def zwnj_def)

text \<open>
  Claim C10 (the text of the search request). With a saved text node and a saved offset
  inside it, \<open>makeSearch\<close> sends one search request. Its \<open>originalText\<close> is the
  collected buffer, and its \<open>text\<close> is the buffer with the first occurrence of the five
  characters \<open>&zwnj\<close> cut out (the buffer itself when they do not occur). The character
  U+200C is not part of that pattern, so every zero-width non-joiner of the buffer is
  still in the text that is sent.
\<close>

theorem makeSearch_text:
  assumes "savedTextNode st = Some tn"
    and "node_at (document st) tn = Some (Text d)"
    and "0 \<le> savedOffset st" and "savedOffset st < int (length d)"
  shows "\<exists>buffer cps request.
           getText (document st) tn (nat (savedOffset st)) [] 7 = Some (buffer, cps) \<and>
           makeSearch st = (Inr 0, st\<lparr>savedSelEndList := cps, sent := sent st @ [request]\<rparr>) \<and>
           msg_type request = ''search'' \<and>
           msg_originalText request = buffer \<and>
           msg_text request = replace buffer (ascii ''&zwnj'') [] \<and>
           (((\<forall>j. j + 5 \<le> length buffer \<longrightarrow> take 5 (drop j buffer) \<noteq> ascii ''&zwnj'') \<and>
             msg_text request = buffer) \<or>
            (\<exists>pre post. buffer = pre @ ascii ''&zwnj'' @ post \<and> msg_text request = pre @ post \<and>
               (\<forall>j<length pre. take 5 (drop j buffer) \<noteq> ascii ''&zwnj''))) \<and>
           filter (\<lambda>c. c = zwnj) (msg_text request) = filter (\<lambda>c. c = zwnj) buffer \<and>
           (zwnj \<in> set buffer \<longrightarrow> zwnj \<in> set (msg_text request))"
proof -
  have off: "nat (savedOffset st) < length d" using assms(3,4) by simp
  then have le: "nat (savedOffset st) \<le> length d" by simp
  from getText_collect[OF assms(2) le, of "[]" 7]
  obtain buffer cps where g: "getText (document st) tn (nat (savedOffset st)) [] 7 = Some (buffer, cps)"
    by auto
  define request where "request =
    \<lparr>msg_type = ''search'', msg_text = replace buffer (ascii ''&zwnj'') [],
     msg_originalText = buffer, msg_selStartOffset = savedOffset st\<rparr>"
  have dat: "data_of (document st) tn = Some d"
    using assms(2) by (simp add: data_of_def)
  have m: "makeSearch st = (Inr 0, st\<lparr>savedSelEndList := cps, sent := sent st @ [request]\<rparr>)"
    using assms(1,3,4) dat g by (simp add: makeSearch_def Let_def request_def)
  have l: "length (ascii ''&zwnj'') = 5" by (simp add: ascii_def)
  have f: "filter (\<lambda>c. c = zwnj) (replace buffer (ascii ''&zwnj'') []) = filter (\<lambda>c. c = zwnj) buffer"
    using replace_filter[OF zwnj_not_in_entity] .
  have z: "zwnj \<in> set buffer \<longrightarrow> zwnj \<in> set (replace buffer (ascii ''&zwnj'') [])"
  proof
    assume "zwnj \<in> set buffer"
    then have "zwnj \<in> set (filter (\<lambda>c. c = zwnj) buffer)" by simp
    then have "zwnj \<in> set (filter (\<lambda>c. c = zwnj) (replace buffer (ascii ''&zwnj'') []))"
      using f by simp
    then show "zwnj \<in> set (replace buffer (ascii ''&zwnj'') [])" by simp
  qed
  have r: "((\<forall>j. j + 5 \<le> length buffer \<longrightarrow> take 5 (drop j buffer) \<noteq> ascii ''&zwnj'') \<and>
             replace buffer (ascii ''&zwnj'') [] = buffer) \<or>
            (\<exists>pre post. buffer = pre @ ascii ''&zwnj'' @ post \<and>
               replace buffer (ascii ''&zwnj'') [] = pre @ post \<and>
               (\<forall>j<length pre. take 5 (drop j buffer) \<noteq> ascii ''&zwnj''))"
    using replace_first[of "ascii ''&zwnj''" buffer] unfolding l .
  have t: "msg_type request = ''search''" "msg_originalText request = buffer"
    "msg_text request = replace buffer (ascii ''&zwnj'') []"
    by (simp_all add: request_def)
  show ?thesis
    using g m r f z unfolding t[symmetric]
    by (intro exI[of _ buffer] exI[of _ cps] exI[of _ request] conjI) (simp_all add: t)
qed

text \<open>
  On the page with the joiner the buffer is the three characters of the text node, and
  the joiner is part of the text sent to the background.
\<close>

theorem makeSearch_text_witness:
  "savedTextNode joiner_state = Some [0, 0] \<and>
   node_at (document joiner_state) [0, 0] = Some (Text [0x4E2D, zwnj, 0x56FD]) \<and>
   0 \<le> savedOffset joiner_state \<and>
   savedOffset joiner_state < int (length [0x4E2D, zwnj, 0x56FD]) \<and>
   (\<exists>cps request.
      makeSearch joiner_state =
        (Inr 0, joiner_state\<lparr>savedSelEndList := cps, sent := sent joiner_state @ [request]\<rparr>) \<and>
      msg_originalText request = [0x4E2D, zwnj, 0x56FD] \<and>
      zwnj \<in> set (msg_text request))"
proof -
  have a: "savedTextNode joiner_state = Some [0, 0]" by code_simp
  have b: "node_at (document joiner_state) [0, 0] = Some (Text [0x4E2D, zwnj, 0x56FD])" by code_simp
  have c: "0 \<le> savedOffset joiner_state" by code_simp
  have d: "savedOffset joiner_state < int (length [0x4E2D, zwnj, 0x56FD])" by code_simp
  have g: "getText (document joiner_state) [0, 0] (nat (savedOffset joiner_state)) [] 7 =
      Some ([0x4E2D, zwnj, 0x56FD], [\<lparr>cp_node = [0, 0], cp_offset = 3\<rparr>])"
    by code_simp
  from makeSearch_text[OF a b c d] obtain buffer cps request where
    r: "getText (document joiner_state) [0, 0] (nat (savedOffset joiner_state)) [] 7 = Some (buffer, cps)"
      "makeSearch joiner_state =
        (Inr 0, joiner_state\<lparr>savedSelEndList := cps, sent := sent joiner_state @ [request]\<rparr>)"
      "msg_originalText request = buffer"
      "zwnj \<in> set buffer \<longrightarrow> zwnj \<in> set (msg_text request)"
    by blast
  from r(1) g have buf: "buffer = [0x4E2D, zwnj, 0x56FD]" by simp
  then have "zwnj \<in> set (msg_text request)" using r(4) by simp
  with r(2,3) buf have "\<exists>cps request.
      makeSearch joiner_state =
        (Inr 0, joiner_state\<lparr>savedSelEndList := cps, sent := sent joiner_state @ [request]\<rparr>) \<and>
      msg_originalText request = [0x4E2D, zwnj, 0x56FD] \<and>
      zwnj \<in> set (msg_text request)"
    by blast
  with a b c d show ?thesis by blast
qed

section \<open>The resolver behind the search message\<close>

lemma resolve_from_None:
  "resolve_from n B D = None \<Longrightarrow> 1 \<le> L \<Longrightarrow> L \<le> n \<Longrightarrow> lookup D (take L B) = []"
proof (induction n)
  case 0
  then show ?case by simp
next
  case (Suc n)
  from Suc.prems(1) have a: "lookup D (take (Suc n) B) = []" and b: "resolve_from n B D = None"
    by (auto split: list.splits)
  show ?case
  proof (cases "L = Suc n")
    case True
    with a show ?thesis by simp
  next
    case False
    with Suc.prems have "L \<le> n" by simp
    with Suc.IH[OF b Suc.prems(2)] show ?thesis by simp
  qed
qed

lemma resolve_from_Some:
  "resolve_from n B D = Some r \<Longrightarrow>
   1 \<le> matchLen r \<and> matchLen r \<le> n \<and> data r = lookup D (take (matchLen r) B) \<and> data r \<noteq> [] \<and>
   (\<forall>L. matchLen r < L \<and> L \<le> n \<longrightarrow> lookup D (take L B) = [])"
proof (induction n)
  case 0
  then show ?case by simp
next
  case (Suc n)
  show ?case
  proof (cases "lookup D (take (Suc n) B)")
    case Nil
    with Suc.prems have "resolve_from n B D = Some r" by simp
    from Suc.IH[OF this] have ih: "1 \<le> matchLen r" "matchLen r \<le> n"
      "data r = lookup D (take (matchLen r) B)" "data r \<noteq> []"
      "\<forall>L. matchLen r < L \<and> L \<le> n \<longrightarrow> lookup D (take L B) = []"
      by auto
    have "\<forall>L. matchLen r < L \<and> L \<le> Suc n \<longrightarrow> lookup D (take L B) = []"
    proof (intro allI impI)
      fix L assume "matchLen r < L \<and> L \<le> Suc n"
      then have "L = Suc n \<or> (matchLen r < L \<and> L \<le> n)" by auto
      then show "lookup D (take L B) = []" using Nil ih(5) by auto
    qed
    with ih show ?thesis by simp
  next
    case (Cons e es)
    with Suc.prems have "r = \<lparr>data = e # es, matchLen = Suc n\<rparr>" by simp
    with Cons show ?thesis by auto
  qed
qed

lemma wf_index_lookup:
  assumes "wf_index D"
  shows "(k \<in> keys D) = (lookup D k \<noteq> [])" and "k \<in> keys D \<Longrightarrow> (k, lookup D k) \<in> set D"
    and "k \<in> keys D \<Longrightarrow> k \<noteq> []"
proof -
  from assms have dist: "distinct (map fst D)"
    and ne: "\<forall>(k, es)\<in>set D. k \<noteq> [] \<and> es \<noteq> []"
    by (auto simp: wf_index_def list_all_iff)
  show "(k \<in> keys D) = (lookup D k \<noteq> [])"
  proof
    assume "k \<in> keys D"
    then obtain es where "(k, es) \<in> set D" by (auto simp: keys_def)
    then have "map_of D k = Some es" "es \<noteq> []" using dist ne by auto
    then show "lookup D k \<noteq> []" by (simp add: lookup_def)
  next
    assume "lookup D k \<noteq> []"
    then obtain es where "map_of D k = Some es"
      by (auto simp: lookup_def split: option.splits)
    then have "(k, es) \<in> set D" by (rule map_of_SomeD)
    then show "k \<in> keys D" by (force simp: keys_def)
  qed
  show "k \<in> keys D \<Longrightarrow> (k, lookup D k) \<in> set D"
  proof -
    assume "k \<in> keys D"
    then obtain es where "(k, es) \<in> set D" by (auto simp: keys_def)
    moreover from this have "map_of D k = Some es" using dist by simp
    ultimately show ?thesis by (simp add: lookup_def)
  qed
  show "k \<in> keys D \<Longrightarrow> k \<noteq> []"
    using ne by (auto simp: keys_def)
qed

lemma lookUpWord_longest:
  assumes "wf_index D"
  shows "case lookUpWord D B of
           None \<Rightarrow> \<not> (\<exists>L. L \<le> min (length B) (maxHeadwordLength D) \<and> take L B \<in> keys D)
         | Some r \<Rightarrow>
             matchLen r \<le> min (length B) (maxHeadwordLength D) \<and>
             take (matchLen r) B \<in> keys D \<and>
             (take (matchLen r) B, data r) \<in> set D \<and>
             (\<forall>L. L \<le> min (length B) (maxHeadwordLength D) \<and> take L B \<in> keys D \<longrightarrow> L \<le> matchLen r)"
proof (cases "lookUpWord D B")
  case None
  have "\<not> (\<exists>L. L \<le> min (length B) (maxHeadwordLength D) \<and> take L B \<in> keys D)"
  proof
    assume "\<exists>L. L \<le> min (length B) (maxHeadwordLength D) \<and> take L B \<in> keys D"
    then obtain L where L: "L \<le> min (length B) (maxHeadwordLength D)" "take L B \<in> keys D"
      by blast
    then have "take L B \<noteq> []" using wf_index_lookup(3)[OF assms] by blast
    then have "1 \<le> L" by (cases L) auto
    then have "lookup D (take L B) = []"
      using resolve_from_None[of "min (length B) (maxHeadwordLength D)" B D L] None L(1)
      by (simp add: lookUpWord_def)
    then show False using L(2) wf_index_lookup(1)[OF assms] by blast
  qed
  with None show ?thesis by simp
next
  case (Some r)
  then have "resolve_from (min (length B) (maxHeadwordLength D)) B D = Some r"
    by (simp add: lookUpWord_def)
  from resolve_from_Some[OF this]
  have r: "matchLen r \<le> min (length B) (maxHeadwordLength D)"
    "data r = lookup D (take (matchLen r) B)" "data r \<noteq> []"
    "\<forall>L. matchLen r < L \<and> L \<le> min (length B) (maxHeadwordLength D) \<longrightarrow> lookup D (take L B) = []"
    by auto
  have k: "take (matchLen r) B \<in> keys D"
    using r(2,3) wf_index_lookup(1)[OF assms] by simp
  have e: "(take (matchLen r) B, data r) \<in> set D"
    using wf_index_lookup(2)[OF assms k] r(2) by simp
  have m: "\<forall>L. L \<le> min (length B) (maxHeadwordLength D) \<and> take L B \<in> keys D \<longrightarrow> L \<le> matchLen r"
  proof (intro allI impI)
    fix L assume L: "L \<le> min (length B) (maxHeadwordLength D) \<and> take L B \<in> keys D"
    show "L \<le> matchLen r"
    proof (rule ccontr)
      assume "\<not> L \<le> matchLen r"
      then have "lookup D (take L B) = []" using r(4) L by simp
      then show False using L wf_index_lookup(1)[OF assms] by blast
    qed
  qed
  from Some r(1) k e m show ?thesis by simp
qed

text \<open>
  Claim C1 (longest-match resolution). For a dictionary that meets the invariant of the
  data model (unique keys, every headword a non-empty string with at least one entry) and
  a search request with buffer \<open>B\<close>, the background listener answers through the callback:
  with the greatest length \<open>L \<le> min(len(B), maxHeadwordLength(D))\<close> whose prefix
  \<open>B[0:L]\<close> is a key of \<open>D\<close>, together with the entries stored under that key and the
  two fields copied from the request; or with no result when there is no such length.
\<close>

theorem search_longest_match:
  assumes "wf_index D" and "dict mypy = Some D" and "msg_type request = ''search''"
  shows "\<exists>response. background_onMessage mypy request = Inr [Callback response] \<and>
     (case response of
        None \<Rightarrow>
          \<not> (\<exists>L. L \<le> min (length (msg_text request)) (maxHeadwordLength D) \<and>
                  take L (msg_text request) \<in> keys D)
      | Some r \<Rightarrow>
          matchLen r \<le> min (length (msg_text request)) (maxHeadwordLength D) \<and>
          take (matchLen r) (msg_text request) \<in> keys D \<and>
          (take (matchLen r) (msg_text request), data r) \<in> set D \<and>
          (\<forall>L. L \<le> min (length (msg_text request)) (maxHeadwordLength D) \<and>
               take L (msg_text request) \<in> keys D \<longrightarrow> L \<le> matchLen r) \<and>
          originalText r = msg_originalText request \<and>
          selStartOffset r = msg_selStartOffset request)"
proof (cases "lookUpWord D (msg_text request)")
  case None
  then have "background_onMessage mypy request = Inr [Callback None]"
    using assms(2,3) by (simp add: background_onMessage_def)
  moreover have "\<not> (\<exists>L. L \<le> min (length (msg_text request)) (maxHeadwordLength D) \<and>
                  take L (msg_text request) \<in> keys D)"
    using lookUpWord_longest[OF assms(1), of "msg_text request"] None by simp
  ultimately show ?thesis by simp
next
  case (Some r)
  define resp where "resp = lookup_result.extend r
      \<lparr>originalText = msg_originalText request, selStartOffset = msg_selStartOffset request\<rparr>"
  have b: "background_onMessage mypy request = Inr [Callback (Some resp)]"
    using assms(2,3) Some by (simp add: background_onMessage_def resp_def)
  have f: "matchLen resp = matchLen r" "data resp = data r"
    "originalText resp = msg_originalText request" "selStartOffset resp = msg_selStartOffset request"
    by (simp_all add: resp_def lookup_result.defs)
  from lookUpWord_longest[OF assms(1), of "msg_text request"] Some
  have "matchLen r \<le> min (length (msg_text request)) (maxHeadwordLength D) \<and>
          take (matchLen r) (msg_text request) \<in> keys D \<and>
          (take (matchLen r) (msg_text request), data r) \<in> set D \<and>
          (\<forall>L. L \<le> min (length (msg_text request)) (maxHeadwordLength D) \<and>
               take L (msg_text request) \<in> keys D \<longrightarrow> L \<le> matchLen r)"
    by simp
  with b f show ?thesis by simp
qed

text \<open>
  The spec's example: the dictionary holds a one-character word and the two-character word
  that starts with it; the buffer of three characters matches the longer one.
\<close>

theorem search_longest_match_witness:
  "wf_index example_index \<and> dict \<lparr>enabled = True, dict = Some example_index\<rparr> = Some example_index \<and>
   msg_type \<lparr>msg_type = ''search'', msg_text = [0x4E2D, 0x56FD, 0x4EBA], msg_originalText = [0x4E2D, 0x56FD, 0x4EBA], msg_selStartOffset = 0\<rparr> = ''search'' \<and>
   (\<exists>r. background_onMessage \<lparr>enabled = True, dict = Some example_index\<rparr>
           \<lparr>msg_type = ''search'', msg_text = [0x4E2D, 0x56FD, 0x4EBA], msg_originalText = [0x4E2D, 0x56FD, 0x4EBA], msg_selStartOffset = 0\<rparr> =
         Inr [Callback (Some r)] \<and> matchLen r = 2 \<and> data r = [example_entry])"
proof -
  let ?m = "\<lparr>enabled = True, dict = Some example_index\<rparr>"
  let ?q = "\<lparr>msg_type = ''search'', msg_text = [0x4E2D, 0x56FD, 0x4EBA],
            msg_originalText = [0x4E2D, 0x56FD, 0x4EBA], msg_selStartOffset = 0\<rparr>"
  have w: "wf_index example_index" by code_simp
  have d: "dict ?m = Some example_index" by simp
  have t: "msg_type ?q = ''search''" by simp
  have ev: "background_onMessage ?m ?q =
      Inr [Callback (Some \<lparr>data = [example_entry], matchLen = 2,
             originalText = [0x4E2D, 0x56FD, 0x4EBA], selStartOffset = 0\<rparr>)]"
    by code_simp
  from search_longest_match[OF w d t] obtain response where
    "background_onMessage ?m ?q = Inr [Callback response]" by blast
  with ev have "\<exists>r. background_onMessage ?m ?q = Inr [Callback (Some r)] \<and> matchLen r = 2 \<and>
      data r = [example_entry]"
    by simp
  with w d t show ?thesis by blast
qed

section \<open>Ownership of the selection\<close>

text \<open>
  Claim C7, as amended. Before it clears or replaces a highlight the script compares the
  string of the current selection with the string it recorded for its own highlight. When
  the selection is not collapsed and the strings differ, \<open>highlightMatch\<close> and
  \<open>clearHighlight\<close> both leave the selection as it is. That comparison is all there is to
  ownership: a selection that is collapsed, or whose string is the recorded one, is
  emptied by \<open>clearHighlight\<close> (unless the recorded string is \<open>null\<close>) and replaced by
  the range of \<open>highlightMatch\<close> (when the list of checkpoints is not empty and no
  boundary point is refused), whoever made it.
\<close>

theorem selection_ownership:
  "(\<not> isCollapsed (selection st) \<and> selText st \<noteq> Str (toString (selection st)) \<longrightarrow>
      selection (snd (highlightMatch rangeStartNode rangeStartOffset len selEndList st)) = selection st \<and>
      selection (clearHighlight st) = selection st) \<and>
   ((isCollapsed (selection st) \<or> selText st = Str (toString (selection st))) \<and> selText st \<noteq> Null \<longrightarrow>
      selection (clearHighlight st) = None) \<and>
   ((isCollapsed (selection st) \<or> selText st = Str (toString (selection st))) \<and> selEndList \<noteq> [] \<and>
    fst (highlightMatch rangeStartNode rangeStartOffset len selEndList st) = None \<longrightarrow>
      (\<exists>rng. selection (snd (highlightMatch rangeStartNode rangeStartOffset len selEndList st)) =
                Some \<lparr>sel_range = rng, sel_string = rangeText (document st) rng\<rparr> \<and>
             selText (snd (highlightMatch rangeStartNode rangeStartOffset len selEndList st)) =
                Str (rangeText (document st) rng)))"
proof (intro conjI impI)
  assume a: "\<not> isCollapsed (selection st) \<and> selText st \<noteq> Str (toString (selection st))"
  then show "selection (snd (highlightMatch rangeStartNode rangeStartOffset len selEndList st)) = selection st"
    by (auto simp: highlightMatch_def Let_def split: list.splits prod.splits sum.splits)
  from a show "selection (clearHighlight st) = selection st"
    by (simp add: clearHighlight_def Let_def)
next
  assume "(isCollapsed (selection st) \<or> selText st = Str (toString (selection st))) \<and> selText st \<noteq> Null"
  then show "selection (clearHighlight st) = None"
    by (auto simp: clearHighlight_def Let_def)
next
  assume "(isCollapsed (selection st) \<or> selText st = Str (toString (selection st))) \<and> selEndList \<noteq> [] \<and>
    fst (highlightMatch rangeStartNode rangeStartOffset len selEndList st) = None"
  then have g: "\<not> (\<not> isCollapsed (selection st) \<and> selText st \<noteq> Str (toString (selection st)))"
    and ne: "selEndList \<noteq> []"
    and ok: "fst (highlightMatch rangeStartNode rangeStartOffset len selEndList st) = None"
    by auto
  from ne obtain c cs where cps: "selEndList = c # cs" by (cases selEndList) auto
  obtain selEnd off where p: "project (c # cs) c (rangeStartOffset + int len) = (selEnd, off)"
    by (meson surj_pair)
  from ok cps p obtain r1 where r1: "setStart (document st) createRange rangeStartNode rangeStartOffset = Inr r1"
    by (cases "setStart (document st) createRange rangeStartNode rangeStartOffset")
       (auto simp: highlightMatch_def)
  from ok cps p r1 obtain rng where rng: "setEnd (document st) r1 (cp_node selEnd) off = Inr rng"
    by (cases "setEnd (document st) r1 (cp_node selEnd) off") (auto simp: highlightMatch_def)
  have "snd (highlightMatch rangeStartNode rangeStartOffset len selEndList st) =
      st\<lparr>selection := Some \<lparr>sel_range = rng, sel_string = rangeText (document st) rng\<rparr>,
         selText := Str (rangeText (document st) rng)\<rparr>"
    using cps p r1 rng g by (auto simp: highlightMatch_def Let_def toString_def)
  then show "\<exists>rng. selection (snd (highlightMatch rangeStartNode rangeStartOffset len selEndList st)) =
                Some \<lparr>sel_range = rng, sel_string = rangeText (document st) rng\<rparr> \<and>
             selText (snd (highlightMatch rangeStartNode rangeStartOffset len selEndList st)) =
                Str (rangeText (document st) rng)"
    by auto
qed

text \<open>
  The user's selection of two other characters survives both operations; the user's
  selection of the second occurrence of the highlighted word does not.
\<close>

theorem selection_ownership_witness:
  "\<not> isCollapsed (selection user_selection_state) \<and>
   selText user_selection_state \<noteq> Str (toString (selection user_selection_state)) \<and>
   selection (snd (highlightMatch [0, 0] 0 2 [\<lparr>cp_node = [0, 0], cp_offset = 6\<rparr>] user_selection_state)) =
     Some \<lparr>sel_range = \<lparr>startContainer = [0, 0], startOffset = 2,
                         endContainer = [0, 0], endOffset = 4\<rparr>,
           sel_string = [0x4EBA, 0x6C11]\<rparr> \<and>
   selection (clearHighlight user_selection_state) =
     Some \<lparr>sel_range = \<lparr>startContainer = [0, 0], startOffset = 2,
                         endContainer = [0, 0], endOffset = 4\<rparr>,
           sel_string = [0x4EBA, 0x6C11]\<rparr> \<and>
   selText same_text_state = Str (toString (selection same_text_state)) \<and>
   selText same_text_state \<noteq> Null \<and>
   selection (clearHighlight same_text_state) = None \<and>
   [\<lparr>cp_node = [0, 0], cp_offset = 5\<rparr>] \<noteq> [] \<and>
   fst (highlightMatch [0, 0] 2 1 [\<lparr>cp_node = [0, 0], cp_offset = 5\<rparr>] same_text_state) = None \<and>
   (\<exists>rng. selection (snd (highlightMatch [0, 0] 2 1 [\<lparr>cp_node = [0, 0], cp_offset = 5\<rparr>]
                              same_text_state)) =
            Some \<lparr>sel_range = rng, sel_string = rangeText (document same_text_state) rng\<rparr>)"
proof -
  have a: "\<not> isCollapsed (selection user_selection_state)" by code_simp
  have b: "selText user_selection_state \<noteq> Str (toString (selection user_selection_state))"
    by code_simp
  have s: "selection user_selection_state =
     Some \<lparr>sel_range = \<lparr>startContainer = [0, 0], startOffset = 2,
                         endContainer = [0, 0], endOffset = 4\<rparr>,
           sel_string = [0x4EBA, 0x6C11]\<rparr>"
    by (simp add: user_selection_state_def)
  from selection_ownership[of user_selection_state "[0, 0]" 0 2
      "[\<lparr>cp_node = [0, 0], cp_offset = 6\<rparr>]"] a b
  have "selection (snd (highlightMatch [0, 0] 0 2 [\<lparr>cp_node = [0, 0], cp_offset = 6\<rparr>]
            user_selection_state)) = selection user_selection_state \<and>
        selection (clearHighlight user_selection_state) = selection user_selection_state"
    by blast
  then have kept: "selection (snd (highlightMatch [0, 0] 0 2 [\<lparr>cp_node = [0, 0], cp_offset = 6\<rparr>]
            user_selection_state)) =
       Some \<lparr>sel_range = \<lparr>startContainer = [0, 0], startOffset = 2,
                           endContainer = [0, 0], endOffset = 4\<rparr>,
             sel_string = [0x4EBA, 0x6C11]\<rparr>"
      "selection (clearHighlight user_selection_state) =
       Some \<lparr>sel_range = \<lparr>startContainer = [0, 0], startOffset = 2,
                           endContainer = [0, 0], endOffset = 4\<rparr>,
             sel_string = [0x4EBA, 0x6C11]\<rparr>"
    by (simp_all only: s)
  have c: "selText same_text_state = Str (toString (selection same_text_state))" by code_simp
  have d: "selText same_text_state \<noteq> Null" by code_simp
  have e: "[\<lparr>cp_node = [0, 0], cp_offset = 5\<rparr>] \<noteq> []" by simp
  have f: "fst (highlightMatch [0, 0] 2 1 [\<lparr>cp_node = [0, 0], cp_offset = 5\<rparr>] same_text_state) = None"
    by code_simp
  note inst = selection_ownership[of same_text_state "[0, 0]" 2 1
      "[\<lparr>cp_node = [0, 0], cp_offset = 5\<rparr>]"]
  from inst c d have g: "selection (clearHighlight same_text_state) = None"
    by blast
  from inst c e f
  have h: "\<exists>rng. selection (snd (highlightMatch [0, 0] 2 1 [\<lparr>cp_node = [0, 0], cp_offset = 5\<rparr>]
                              same_text_state)) =
            Some \<lparr>sel_range = rng, sel_string = rangeText (document same_text_state) rng\<rparr>"
    by blast
  from a b kept c d g e f h show ?thesis by blast
qed

text \<open>
  The claim as written fails in its last clause. The script has highlighted the first
  occurrence of a word; the user selects the second occurrence, a selection the script did
  not make, with the same string. \<open>clearHighlight\<close> empties it, and \<open>highlightMatch\<close> for
  the character after the first occurrence replaces it. The same happens to a caret the
  user has placed.
\<close>

theorem foreign_selection_overridden:
  "selection highlighted_state =
     Some \<lparr>sel_range = \<lparr>startContainer = [0, 0], startOffset = 0,
                         endContainer = [0, 0], endOffset = 2\<rparr>,
           sel_string = [0x4E2D, 0x56FD]\<rparr> \<and>
   selText highlighted_state = Str [0x4E2D, 0x56FD] \<and>
   rangeText repeat_page \<lparr>startContainer = [0, 0], startOffset = 3,
                          endContainer = [0, 0], endOffset = 5\<rparr> = [0x4E2D, 0x56FD] \<and>
   \<not> isCollapsed (selection same_text_state) \<and>
   selection (clearHighlight same_text_state) = None \<and>
   selection (snd (highlightMatch [0, 0] 2 1 [\<lparr>cp_node = [0, 0], cp_offset = 5\<rparr>] same_text_state)) =
     Some \<lparr>sel_range = \<lparr>startContainer = [0, 0], startOffset = 2,
                         endContainer = [0, 0], endOffset = 3\<rparr>,
           sel_string = [0x548C]\<rparr> \<and>
   selection (clearHighlight caret_state) = None \<and>
   selection (snd (highlightMatch [0, 0] 2 1 [\<lparr>cp_node = [0, 0], cp_offset = 5\<rparr>] caret_state)) =
     Some \<lparr>sel_range = \<lparr>startContainer = [0, 0], startOffset = 2,
                         endContainer = [0, 0], endOffset = 3\<rparr>,
           sel_string = [0x548C]\<rparr>"
  by code_simp

section \<open>Responses and the hover state\<close>

lemma place_shows:
  "innerHTML p = html \<Longrightarrow> \<not> display_none p \<Longrightarrow>
   \<exists>q. popup (place w x y p st) = Some q \<and> innerHTML q = html \<and> \<not> display_none q"
  by (simp add: place_def Let_def)

lemma place_selection: "selection (place w x y p st) = selection st"
  by (simp add: place_def Let_def)

lemma showPopup_elem_shape:
  "\<exists>X Y p. innerHTML p = html \<and> \<not> display_none p \<and>
     showPopup w html (Some e) x y st =
       (if offsetWidth w \<le> 0 then (Some (ReferenceError ''pw''), st\<lparr>popup := Some p\<rparr>)
        else (None, place w X Y p st))"
proof -
  obtain x0 y0 where xy:
    "(case (x, y) of
        (Some a, Some b) \<Rightarrow> if a = 0 \<or> b = 0 then (0, 0) else (a, b)
      | _ \<Rightarrow> (0, 0)) = (x0 :: int, y0 :: int)"
    by (meson surj_pair)
  define p where "p = (case popup st of
        None \<Rightarrow> \<lparr>innerHTML = [], display_none = False, style_left = None, style_top = None\<rparr>
      | Some q \<Rightarrow> q)\<lparr>innerHTML := html, style_top := Some (- 1000), style_left := Some 0,
                     display_none := False\<rparr>"
  have "innerHTML p = html \<and> \<not> display_none p" by (simp add: p_def)
  moreover have "\<exists>X Y. showPopup w html (Some e) x y st =
       (if offsetWidth w \<le> 0 then (Some (ReferenceError ''pw''), st\<lparr>popup := Some p\<rparr>)
        else (None, place w X Y p st))"
    unfolding showPopup_def Let_def xy p_def by (simp split del: if_split) blast
  ultimately show ?thesis by blast
qed

lemma showPopup_shows:
  assumes "showPopup w html (Some e) x y st = (None, st')"
  shows "\<exists>p. popup st' = Some p \<and> innerHTML p = html \<and> \<not> display_none p"
proof -
  from showPopup_elem_shape[of html w e x y st] obtain X Y p where
    p: "innerHTML p = html" "\<not> display_none p" and
    s: "showPopup w html (Some e) x y st =
       (if offsetWidth w \<le> 0 then (Some (ReferenceError ''pw''), st\<lparr>popup := Some p\<rparr>)
        else (None, place w X Y p st))"
    by blast
  from s assms have "st' = place w X Y p st"
    by (cases "offsetWidth w \<le> 0") simp_all
  then show ?thesis using place_shows[OF p] by simp
qed

lemma showPopup_selection:
  "selection (snd (showPopup w html (Some e) x y st)) = selection st"
proof -
  from showPopup_elem_shape[of html w e x y st] obtain X Y p where
    s: "showPopup w html (Some e) x y st =
       (if offsetWidth w \<le> 0 then (Some (ReferenceError ''pw''), st\<lparr>popup := Some p\<rparr>)
        else (None, place w X Y p st))"
    by blast
  show ?thesis
    unfolding s by (simp add: place_selection)
qed

lemma highlightMatch_keeps:
  "savedTarget (snd (highlightMatch n off len cps st)) = savedTarget st"
  by (auto simp: highlightMatch_def Let_def split: list.splits prod.splits sum.splits)

text \<open>
  Claim C5, as amended. \<open>processSearchResult\<close> never compares the response with the
  current hover state. A response is dropped, with the popup hidden and the highlight
  cleared, only when it is absent or has no entries. Every other response that is
  processed without an exception, whatever position it was asked for, leaves the popup
  displayed with the entries of that response (the saved text node is never the document
  node itself, the one case in which the function gives up). Unless the target is a form
  element, the selection it leaves is the one \<open>highlightMatch\<close> makes from the offset and
  the match length of the response on the text node and the checkpoint list that are
  saved now.
\<close>

theorem processSearchResult_without_guard:
  "processSearchResult w None st = (None, clearHighlight (hidePopup st)) \<and>
   (data r = [] \<longrightarrow> processSearchResult w (Some r) st = (None, clearHighlight (hidePopup st))) \<and>
   (data r \<noteq> [] \<and> savedTextNode st \<noteq> Some [] \<and> processSearchResult w (Some r) st = (None, st') \<longrightarrow>
      (\<exists>p. popup st' = Some p \<and> innerHTML p = makeHtml r \<and> \<not> display_none p)) \<and>
   (data r \<noteq> [] \<and> savedTarget st = Some tg \<and> \<not> has_form (document st) tg \<and>
    savedTextNode st = Some tn \<and> tn \<noteq> [] \<and> processSearchResult w (Some r) st = (None, st') \<longrightarrow>
      selection st' =
        selection (snd (highlightMatch tn (selStartOffset r)
                          (highlightLength (originalText r) (matchLen r)) (savedSelEndList st) st)))"
proof (intro conjI impI)
  show "processSearchResult w None st = (None, clearHighlight (hidePopup st))"
    by (simp add: processSearchResult_def)
  show "data r = [] \<Longrightarrow> processSearchResult w (Some r) st = (None, clearHighlight (hidePopup st))"
    by (simp add: processSearchResult_def)
next
  assume "data r \<noteq> [] \<and> savedTextNode st \<noteq> Some [] \<and> processSearchResult w (Some r) st = (None, st')"
  then have d: "data r \<noteq> []" and n: "savedTextNode st \<noteq> Some []"
    and p: "processSearchResult w (Some r) st = (None, st')"
    by simp_all
  from d p obtain tg' where tg: "savedTarget st = Some tg'"
    by (cases "savedTarget st") (auto simp: processSearchResult_def Let_def)
  show "\<exists>p. popup st' = Some p \<and> innerHTML p = makeHtml r \<and> \<not> display_none p"
  proof (cases "has_form (document st) tg'")
    case True
    with d p tg have "showPopup w (makeHtml r) (Some tg') (Some (popupX st)) (Some (popupY st)) st = (None, st')"
      by (simp add: processSearchResult_def Let_def)
    then show ?thesis by (rule showPopup_shows)
  next
    case False
    with d p tg n obtain tn' where tn: "savedTextNode st = Some tn'" "tn' \<noteq> []"
      by (cases "savedTextNode st") (auto simp: processSearchResult_def Let_def)
    obtain e st1 where h: "highlightMatch tn' (selStartOffset r)
        (highlightLength (originalText r) (matchLen r)) (savedSelEndList st) st = (e, st1)"
      by (cases "highlightMatch tn' (selStartOffset r)
        (highlightLength (originalText r) (matchLen r)) (savedSelEndList st) st") auto
    have t1: "savedTarget st1 = Some tg'"
      using highlightMatch_keeps[of tn' "selStartOffset r"
          "highlightLength (originalText r) (matchLen r)" "savedSelEndList st" st] h tg
      by simp
    from d p tg False tn h have "e = None"
      by (cases e) (auto simp: processSearchResult_def Let_def)
    with d p tg False tn h t1
    have "showPopup w (makeHtml r) (Some tg') (Some (popupX st1)) (Some (popupY st1)) st1 = (None, st')"
      by (simp add: processSearchResult_def Let_def)
    then show ?thesis by (rule showPopup_shows)
  qed
next
  assume "data r \<noteq> [] \<and> savedTarget st = Some tg \<and> \<not> has_form (document st) tg \<and>
    savedTextNode st = Some tn \<and> tn \<noteq> [] \<and> processSearchResult w (Some r) st = (None, st')"
  then have d: "data r \<noteq> []" and tg: "savedTarget st = Some tg"
    and f: "\<not> has_form (document st) tg" and tn: "savedTextNode st = Some tn" "tn \<noteq> []"
    and p: "processSearchResult w (Some r) st = (None, st')"
    by simp_all
  obtain e st1 where h: "highlightMatch tn (selStartOffset r)
      (highlightLength (originalText r) (matchLen r)) (savedSelEndList st) st = (e, st1)"
    by (cases "highlightMatch tn (selStartOffset r)
      (highlightLength (originalText r) (matchLen r)) (savedSelEndList st) st") auto
  have t1: "savedTarget st1 = Some tg"
    using highlightMatch_keeps[of tn "selStartOffset r"
        "highlightLength (originalText r) (matchLen r)" "savedSelEndList st" st] h tg
    by simp
  from d p tg f tn h have "e = None"
    by (cases e) (auto simp: processSearchResult_def Let_def)
  with d p tg f tn h t1
  have "showPopup w (makeHtml r) (Some tg) (Some (popupX st1)) (Some (popupY st1)) st1 = (None, st')"
    by (simp add: processSearchResult_def Let_def)
  then have "selection st' = selection st1"
    using showPopup_selection[of w "makeHtml r" tg "Some (popupX st1)" "Some (popupY st1)" st1]
    by simp
  then show "selection st' =
      selection (snd (highlightMatch tn (selStartOffset r)
                        (highlightLength (originalText r) (matchLen r)) (savedSelEndList st) st))"
    using h by simp
qed

text \<open>
  The same late response, as an instance of the amended claim: the popup shows its
  entries, and the selection is made in the text node that is hovered now.
\<close>

theorem processSearchResult_without_guard_witness:
  "data first_response \<noteq> [] \<and> savedTextNode stale_state \<noteq> Some [] \<and>
   savedTarget stale_state = Some [0, 1] \<and> \<not> has_form (document stale_state) [0, 1] \<and>
   savedTextNode stale_state = Some [0, 1, 0] \<and> [0, 1, 0] \<noteq> ([] :: node) \<and>
   processSearchResult example_layout (Some first_response) stale_state =
     (None, snd (processSearchResult example_layout (Some first_response) stale_state)) \<and>
   (\<exists>p. popup (snd (processSearchResult example_layout (Some first_response) stale_state)) = Some p \<and>
        innerHTML p = makeHtml first_response \<and> \<not> display_none p) \<and>
   selection (snd (processSearchResult example_layout (Some first_response) stale_state)) =
     selection (snd (highlightMatch [0, 1, 0] (selStartOffset first_response)
                       (highlightLength (originalText first_response) (matchLen first_response))
                       (savedSelEndList stale_state) stale_state))"
proof -
  have a: "data first_response \<noteq> []" by code_simp
  have b: "savedTextNode stale_state \<noteq> Some []" by code_simp
  have t: "savedTarget stale_state = Some [0, 1]" by code_simp
  have f: "\<not> has_form (document stale_state) [0, 1]" by code_simp
  have n: "savedTextNode stale_state = Some [0, 1, 0]" by code_simp
  have e: "[0, 1, 0] \<noteq> ([] :: node)" by simp
  have "fst (processSearchResult example_layout (Some first_response) stale_state) = None"
    by code_simp
  then have c: "processSearchResult example_layout (Some first_response) stale_state =
     (None, snd (processSearchResult example_layout (Some first_response) stale_state))"
    by (metis prod.collapse)
  note inst = processSearchResult_without_guard[of example_layout stale_state first_response
      "snd (processSearchResult example_layout (Some first_response) stale_state)" "[0, 1]" "[0, 1, 0]"]
  from inst a b c
  have p: "\<exists>p. popup (snd (processSearchResult example_layout (Some first_response) stale_state)) = Some p \<and>
        innerHTML p = makeHtml first_response \<and> \<not> display_none p"
    by blast
  from inst a t f n e c
  have s: "selection (snd (processSearchResult example_layout (Some first_response) stale_state)) =
     selection (snd (highlightMatch [0, 1, 0] (selStartOffset first_response)
                       (highlightLength (originalText first_response) (matchLen first_response))
                       (savedSelEndList stale_state) stale_state))"
    by blast
  from a b t f n e c p s show ?thesis by blast
qed

text \<open>
  The claim as written fails. The answer to the first search (offset 0 of the paragraph)
  arrives when the hover state is offset 1 of the other text node: it is not discarded.
  The first two characters of the other node are selected and the popup is shown.
\<close>

theorem stale_response_is_applied:
  "background_onMessage \<lparr>enabled = True, dict = Some example_index\<rparr> (hd (sent stale_state)) =
     Inr [Callback (Some first_response)] \<and>
   selStartOffset first_response = 0 \<and>
   savedTextNode stale_state = Some [0, 1, 0] \<and>
   savedOffset stale_state = 1 \<and>
   selection stale_state = None \<and>
   popup stale_state = None \<and>
   fst (processSearchResult example_layout (Some first_response) stale_state) = None \<and>
   selection (snd (processSearchResult example_layout (Some first_response) stale_state)) =
     Some \<lparr>sel_range = \<lparr>startContainer = [0, 1, 0], startOffset = 0,
                         endContainer = [0, 1, 0], endOffset = 2\<rparr>,
           sel_string = [0x4F60, 0x597D]\<rparr> \<and>
   popup (snd (processSearchResult example_layout (Some first_response) stale_state)) =
     Some \<lparr>innerHTML = makeHtml first_response, display_none = False,
           style_left = Some 160, style_top = Some 125\<rparr>"
  by code_simp

section \<open>Disabling, unknown messages and the width of the popup\<close>

text \<open>
  Claim C6 (disable cancels a pending lookup) against the code. The pointer rests on the
  first position, which arms the timer; then the disable message arrives. \<open>disableTabs\<close>
  does not touch the timer in any state, so its handle is still armed. The timer fires, the search is
  sent, and when the background answers it with a match the text is highlighted and the
  popup is shown, although the script is disabled.
\<close>

theorem disable_leaves_timer_armed:
  "timeouts (disableTabs st) = timeouts st \<and> timer (disableTabs st) = timer st \<and>
   timeouts (run example_layout
      [Message (plain_message ''enable''), MouseMove move_first] (init example_page)) = [1] \<and>
   timeouts (run example_layout
      [Message (plain_message ''enable''), MouseMove move_first,
       Message (plain_message ''disable'')] (init example_page)) = [1] \<and>
   sent (run example_layout
      [Message (plain_message ''enable''), MouseMove move_first,
       Message (plain_message ''disable''), Timeout 1] (init example_page)) =
     [\<lparr>msg_type = ''search'',
       msg_text = [0x4E2D, 0x56FD, 0x4EBA, 0x6C11, 0x94F6, 0x884C, 0x4F60],
       msg_originalText = [0x4E2D, 0x56FD, 0x4EBA, 0x6C11, 0x94F6, 0x884C, 0x4F60],
       msg_selStartOffset = 0\<rparr>] \<and>
   background_onMessage \<lparr>enabled = True, dict = Some example_index\<rparr>
     \<lparr>msg_type = ''search'',
      msg_text = [0x4E2D, 0x56FD, 0x4EBA, 0x6C11, 0x94F6, 0x884C, 0x4F60],
      msg_originalText = [0x4E2D, 0x56FD, 0x4EBA, 0x6C11, 0x94F6, 0x884C, 0x4F60],
      msg_selStartOffset = 0\<rparr> = Inr [Callback (Some first_response)] \<and>
   popup (run example_layout
      [Message (plain_message ''enable''), MouseMove move_first,
       Message (plain_message ''disable''), Timeout 1, Response (Some first_response)]
      (init example_page)) =
     Some \<lparr>innerHTML = makeHtml first_response, display_none = False,
           style_left = Some 100, style_top = Some 125\<rparr> \<and>
   selection (run example_layout
      [Message (plain_message ''enable''), MouseMove move_first,
       Message (plain_message ''disable''), Timeout 1, Response (Some first_response)]
      (init example_page)) =
     Some \<lparr>sel_range = \<lparr>startContainer = [0, 0], startOffset = 0,
                         endContainer = [0, 0], endOffset = 2\<rparr>,
           sel_string = [0x4E2D, 0x56FD]\<rparr>"
proof -
  have "timeouts (disableTabs st) = timeouts st \<and> timer (disableTabs st) = timer st"
    by (simp add: disableTabs_def clearHighlight_def Let_def)
  moreover have "timeouts (run example_layout
      [Message (plain_message ''enable''), MouseMove move_first] (init example_page)) = [1] \<and>
   timeouts (run example_layout
      [Message (plain_message ''enable''), MouseMove move_first,
       Message (plain_message ''disable'')] (init example_page)) = [1] \<and>
   sent (run example_layout
      [Message (plain_message ''enable''), MouseMove move_first,
       Message (plain_message ''disable''), Timeout 1] (init example_page)) =
     [\<lparr>msg_type = ''search'',
       msg_text = [0x4E2D, 0x56FD, 0x4EBA, 0x6C11, 0x94F6, 0x884C, 0x4F60],
       msg_originalText = [0x4E2D, 0x56FD, 0x4EBA, 0x6C11, 0x94F6, 0x884C, 0x4F60],
       msg_selStartOffset = 0\<rparr>] \<and>
   background_onMessage \<lparr>enabled = True, dict = Some example_index\<rparr>
     \<lparr>msg_type = ''search'',
      msg_text = [0x4E2D, 0x56FD, 0x4EBA, 0x6C11, 0x94F6, 0x884C, 0x4F60],
      msg_originalText = [0x4E2D, 0x56FD, 0x4EBA, 0x6C11, 0x94F6, 0x884C, 0x4F60],
      msg_selStartOffset = 0\<rparr> = Inr [Callback (Some first_response)] \<and>
   popup (run example_layout
      [Message (plain_message ''enable''), MouseMove move_first,
       Message (plain_message ''disable''), Timeout 1, Response (Some first_response)]
      (init example_page)) =
     Some \<lparr>innerHTML = makeHtml first_response, display_none = False,
           style_left = Some 100, style_top = Some 125\<rparr> \<and>
   selection (run example_layout
      [Message (plain_message ''enable''), MouseMove move_first,
       Message (plain_message ''disable''), Timeout 1, Response (Some first_response)]
      (init example_page)) =
     Some \<lparr>sel_range = \<lparr>startContainer = [0, 0], startOffset = 0,
                         endContainer = [0, 0], endOffset = 2\<rparr>,
           sel_string = [0x4E2D, 0x56FD]\<rparr>"
    by code_simp
  ultimately show ?thesis by blast
qed

text \<open>
  Claim C8 (unknown messages) against the code. The background listener logs a message of
  an unknown type and returns. The content listener does not: its default case evaluates
  the undeclared name \<open>reqest\<close>, so it raises a ReferenceError, logs nothing and does not
  reach its return.
\<close>

theorem unknown_message_content_raises:
  "content_onMessage w (plain_message ''ping'') st = (Some (ReferenceError ''reqest''), st) \<and>
   background_onMessage mypy (plain_message ''ping'') =
     Inr [ConsoleLog ''Background received unknown request: '' (plain_message ''ping'')]"
  by (simp add: content_onMessage_def background_onMessage_def plain_message_def)

text \<open>
  Claim C9 (width fallback) against the code. With a measured width of 0 the assignment
  meant to install the width 200 names the undeclared \<open>pw\<close>: \<open>showPopup\<close> stops with a
  ReferenceError and the popup stays where the measuring put it, 1000 pixels above the
  page. With a width of 200 the same call moves the popup left, to 780, so that it fits
  the viewport of width 1000; that is what the fallback was to achieve.
\<close>

theorem showPopup_width_fallback_missing:
  "showPopup (example_layout\<lparr>offsetWidth := 0\<rparr>) html (Some e) (Some 900) (Some 100)
       (init example_page) =
     (Some (ReferenceError ''pw''),
      (init example_page)\<lparr>popup := Some \<lparr>innerHTML = html, display_none = False,
                                          style_left = Some 0, style_top = Some (- 1000)\<rparr>\<rparr>) \<and>
   showPopup (example_layout\<lparr>offsetWidth := 200\<rparr>) html (Some e) (Some 900) (Some 100)
       (init example_page) =
     (None,
      (init example_page)\<lparr>popup := Some \<lparr>innerHTML = html, display_none = False,
                                          style_left = Some 780, style_top = Some 125\<rparr>\<rparr>)"
  by (simp add: showPopup_def place_def Let_def example_layout_def init_def)

end
